theory Spec2Isabelle
  imports Main
begin

section \<open>Errors and Python values\<close>

text \<open>
  Every exception the two modules can raise is a value of \<open>error\<close>; a call returns
  \<open>error + 'a\<close> with \<open>Inl\<close> for the raised exception.
  \<^item> \<open>KeyError\<close>: a subscript \<open>d[k]\<close> on a dict without the key \<open>k\<close>;
  \<^item> \<open>TemplateError\<close>: any exception of the template engine;
  \<^item> \<open>AttributeError\<close>: an attribute read on \<open>None\<close>;
  \<^item> \<open>MultipleResultsFound\<close>: \<open>one_or_none()\<close> on a query with more than one row;
  \<^item> \<open>UnmappedInstanceError\<close>: \<open>db_session.delete(None)\<close>;
  \<^item> \<open>TypeError\<close>: an object of the wrong kind where a dict or a list is read.

  \<open>Unsupported\<close> is no exception of the program: it is the answer of the engine of the
  examples to a template it does not model.
\<close>

datatype error =
  KeyError | TemplateError | AttributeError | MultipleResultsFound | UnmappedInstanceError
  | TypeError | Unsupported

definition ebind :: "error + 'a \<Rightarrow> ('a \<Rightarrow> error + 'b) \<Rightarrow> error + 'b" where
  "ebind m f = (case m of Inl e \<Rightarrow> Inl e | Inr x \<Rightarrow> f x)"

text \<open>
  A string is the list of its characters, and its length their number; a \<open>char\<close>
  stands for one character of a Python string.
\<close>

text \<open>The values the keyword arguments of a render call hold: \<open>None\<close> or a string.\<close>

datatype pyval = PyNone | PyStr string

type_synonym kwargs = "string \<rightharpoonup> pyval"

text \<open>
  \<open>Template(s).render(**kwargs)\<close> is the template engine's, a library outside the
  repository: the renderer takes it as the parameter \<open>tpl\<close>, and it may raise.
\<close>

type_synonym engine = "string \<Rightarrow> kwargs \<Rightarrow> error + string"

section \<open>Message blocks\<close>

text \<open>
  A block is a dict read through a fixed set of keys. A field is \<open>None\<close> when the key
  is absent and \<open>Some v\<close> when it is there; the keys the renderer never reads
  (\<open>"type"\<close>, say) ride in the record's extension. The type parameter is what the key
  \<open>"buttons"\<close> holds: the list of button dicts itself where blocks are values, an
  address where they live in a store.
\<close>

record button =
  button_text :: "string option"
  button_value :: "string option"
  button_action :: "string option"
  button_url :: "string option"

record 'b block =
  header :: "string option"
  title :: "string option"
  title_link :: "string option"
  "text" :: "string option"
  buttons :: "'b option"
  status_mapping :: "(pyval \<times> string) list option"
  datetime :: "string option"
  "context" :: "string option"

section \<open>render\_message\_template, block by block\<close>

text \<open>\<open>d.get(k)\<close> as a condition: the key is there and its string is not empty.\<close>

definition truthy :: "string option \<Rightarrow> bool" where
  "truthy v = (case v of None \<Rightarrow> False | Some s \<Rightarrow> s \<noteq> [])"

text \<open>\<open>if d.get(k): d[k] = Template(d[k]).render(**kwargs)\<close>, the new value of the key.\<close>

definition render_key :: "engine \<Rightarrow> kwargs \<Rightarrow> string option \<Rightarrow> error + string option" where
  "render_key tpl kw v =
     (case v of
        None \<Rightarrow> Inr None
      | Some s \<Rightarrow> if s \<noteq> [] then ebind (tpl s kw) (\<lambda>r. Inr (Some r)) else Inr (Some s))"

text \<open>
  The \<open>title_link\<close> step. \<open>Inr None\<close> is \<open>continue\<close>: the rendered link is
  \<open>"None"\<close> or empty, and the block is skipped.
\<close>

definition render_title_link ::
  "engine \<Rightarrow> kwargs \<Rightarrow> ('b, 'z) block_scheme \<Rightarrow> error + ('b, 'z) block_scheme option" where
  "render_title_link tpl kw d =
     (case title_link d of
        None \<Rightarrow> Inr (Some d)
      | Some s \<Rightarrow>
          if s \<noteq> [] then
            ebind (tpl s kw) (\<lambda>r.
              if r = ''None'' then Inr None
              else if r = [] then Inr None
              else Inr (Some (d\<lparr>title_link := Some r\<rparr>)))
          else Inr (Some d))"

text \<open>The \<open>text\<close> step, with the truncation to 2500 characters.\<close>

definition truncate_2500 :: "string \<Rightarrow> string" where
  "truncate_2500 r = (if length r \<le> 2500 then r else take 2500 r)"

definition render_text ::
  "engine \<Rightarrow> kwargs \<Rightarrow> ('b, 'z) block_scheme \<Rightarrow> error + ('b, 'z) block_scheme" where
  "render_text tpl kw d =
     (case text d of
        None \<Rightarrow> Inr d
      | Some s \<Rightarrow>
          if s \<noteq> [] then ebind (tpl s kw) (\<lambda>r. Inr (d\<lparr>text := Some (truncate_2500 r)\<rparr>))
          else Inr d)"

text \<open>
  One button: \<open>button["button_text"]\<close> and \<open>button["button_value"]\<close> are
  subscripts, a \<open>KeyError\<close> when the key is missing; the action and the url are
  rendered when they are there and not empty.
\<close>

definition render_button :: "engine \<Rightarrow> kwargs \<Rightarrow> button \<Rightarrow> error + button" where
  "render_button tpl kw b =
     (case button_text b of
        None \<Rightarrow> Inl KeyError
      | Some t \<Rightarrow>
          ebind (tpl t kw) (\<lambda>t'.
            case button_value b of
              None \<Rightarrow> Inl KeyError
            | Some v \<Rightarrow>
                ebind (tpl v kw) (\<lambda>v'.
                ebind (render_key tpl kw (button_action b)) (\<lambda>a'.
                ebind (render_key tpl kw (button_url b)) (\<lambda>u'.
                  Inr (b\<lparr>button_text := Some t', button_value := Some v',
                         button_action := a', button_url := u'\<rparr>))))))"

fun render_button_list :: "engine \<Rightarrow> kwargs \<Rightarrow> button list \<Rightarrow> error + button list" where
  "render_button_list tpl kw [] = Inr []"
| "render_button_list tpl kw (b # bs) =
     ebind (render_button tpl kw b) (\<lambda>b'.
     ebind (render_button_list tpl kw bs) (\<lambda>bs'. Inr (b' # bs')))"

definition render_buttons ::
  "engine \<Rightarrow> kwargs \<Rightarrow> (button list, 'z) block_scheme
     \<Rightarrow> error + (button list, 'z) block_scheme" where
  "render_buttons tpl kw d =
     (case buttons d of
        None \<Rightarrow> Inr d
      | Some bs \<Rightarrow>
          if bs \<noteq> [] then
            ebind (render_button_list tpl kw bs) (\<lambda>bs'. Inr (d\<lparr>buttons := Some bs'\<rparr>))
          else Inr d)"

text \<open>
  The \<open>status_mapping\<close> step: \<open>d["text"] = d["status_mapping"][kwargs["status"]]\<close>,
  when the mapping is there and not empty. Both subscripts raise \<open>KeyError\<close> on a
  missing key. The mapping is a dict, here the list of its items.
\<close>

definition status_lookup :: "kwargs \<Rightarrow> (pyval \<times> string) list \<Rightarrow> error + string" where
  "status_lookup kw m =
     (case kw ''status'' of
        None \<Rightarrow> Inl KeyError
      | Some st \<Rightarrow> (case map_of m st of None \<Rightarrow> Inl KeyError | Some v \<Rightarrow> Inr v))"

definition render_status ::
  "kwargs \<Rightarrow> ('b, 'z) block_scheme \<Rightarrow> error + ('b, 'z) block_scheme" where
  "render_status kw d =
     (case status_mapping d of
        None \<Rightarrow> Inr d
      | Some m \<Rightarrow>
          if m \<noteq> [] then ebind (status_lookup kw m) (\<lambda>v. Inr (d\<lparr>text := Some v\<rparr>))
          else Inr d)"

text \<open>The steps after the buttons: status mapping, \<open>datetime\<close>, \<open>context\<close>.\<close>

definition render_tail ::
  "engine \<Rightarrow> kwargs \<Rightarrow> ('b, 'z) block_scheme \<Rightarrow> error + ('b, 'z) block_scheme" where
  "render_tail tpl kw d =
     ebind (render_status kw d) (\<lambda>d1.
     ebind (render_key tpl kw (datetime d1)) (\<lambda>dt.
     ebind (render_key tpl kw (context d1)) (\<lambda>cx.
       Inr (d1\<lparr>datetime := dt, context := cx\<rparr>))))"

text \<open>
  The steps before the buttons: \<open>header\<close>, \<open>title\<close>, \<open>title_link\<close> (which may
  skip the block) and \<open>text\<close>.
\<close>

definition render_head ::
  "engine \<Rightarrow> kwargs \<Rightarrow> ('b, 'z) block_scheme \<Rightarrow> error + ('b, 'z) block_scheme option" where
  "render_head tpl kw d =
     ebind (render_key tpl kw (header d)) (\<lambda>h.
     ebind (render_key tpl kw (title d)) (\<lambda>t.
     ebind (render_title_link tpl kw (d\<lparr>header := h, title := t\<rparr>)) (\<lambda>r.
       case r of
         None \<Rightarrow> Inr None
       | Some d1 \<Rightarrow> ebind (render_text tpl kw d1) (\<lambda>d2. Inr (Some d2)))))"

text \<open>The body of the loop for one block; \<open>Inr None\<close> when the block is skipped.\<close>

definition render_block ::
  "engine \<Rightarrow> kwargs \<Rightarrow> (button list, 'z) block_scheme
     \<Rightarrow> error + (button list, 'z) block_scheme option" where
  "render_block tpl kw d =
     ebind (render_head tpl kw d) (\<lambda>r.
       case r of
         None \<Rightarrow> Inr None
       | Some d1 \<Rightarrow>
           ebind (render_buttons tpl kw d1) (\<lambda>d2.
           ebind (render_tail tpl kw d2) (\<lambda>d3. Inr (Some d3))))"

section \<open>The loop on values\<close>

text \<open>
  \<open>render_values\<close> is the loop read on values: \<open>render_block\<close> on every block
  of a list in turn, \<open>data\<close> the list built so far. It is not the function itself,
  which works on objects (\<open>render_message_template_store\<close> below copies them and
  writes into the copies); it is what the function computes for a template in which no
  dict, list of buttons or button occurs twice, as \<open>render_store_refines\<close> proves.
  With a dict that occurs twice the function renders the one copy twice, and the two
  differ.
\<close>

fun render_values ::
  "engine \<Rightarrow> kwargs \<Rightarrow> (button list, 'z) block_scheme list
     \<Rightarrow> (button list, 'z) block_scheme list \<Rightarrow> error + (button list, 'z) block_scheme list" where
  "render_values tpl kw data [] = Inr data"
| "render_values tpl kw data (d # ds) =
     (case render_block tpl kw d of
        Inl e \<Rightarrow> Inl e
      | Inr None \<Rightarrow> render_values tpl kw data ds
      | Inr (Some d') \<Rightarrow> render_values tpl kw (data @ [d']) ds)"

section \<open>Predicates of the renderer's properties\<close>

text \<open>
  The block is skipped by the loop's \<open>continue\<close>: its \<open>title_link\<close> is there and not
  empty, and the engine renders it to \<open>"None"\<close> or to the empty string.
\<close>

definition skipped :: "engine \<Rightarrow> kwargs \<Rightarrow> ('b, 'z) block_scheme \<Rightarrow> bool" where
  "skipped tpl kw d =
     (case title_link d of
        None \<Rightarrow> False
      | Some s \<Rightarrow> s \<noteq> [] \<and> (tpl s kw = Inr ''None'' \<or> tpl s kw = Inr []))"

text \<open>The block has no status mapping, or an empty one: \<open>d.get("status_mapping")\<close> is falsy.\<close>

definition no_status_mapping :: "('b, 'z) block_scheme \<Rightarrow> bool" where
  "no_status_mapping d = (case status_mapping d of None \<Rightarrow> True | Some m \<Rightarrow> m = [])"

text \<open>
  The engine leaves a string as it is: rendered in the context, the string is itself
  again. A key is left when it is absent or holds such a string; a button and a block
  when all their template keys are.
\<close>

definition fixed :: "engine \<Rightarrow> kwargs \<Rightarrow> string option \<Rightarrow> bool" where
  "fixed tpl kw v = (case v of None \<Rightarrow> True | Some s \<Rightarrow> tpl s kw = Inr s)"

definition fixed_button :: "engine \<Rightarrow> kwargs \<Rightarrow> button \<Rightarrow> bool" where
  "fixed_button tpl kw b =
     (fixed tpl kw (button_text b) \<and> fixed tpl kw (button_value b) \<and>
      fixed tpl kw (button_action b) \<and> fixed tpl kw (button_url b))"

definition fixed_block :: "engine \<Rightarrow> kwargs \<Rightarrow> (button list, 'z) block_scheme \<Rightarrow> bool" where
  "fixed_block tpl kw d =
     (fixed tpl kw (header d) \<and> fixed tpl kw (title d) \<and> fixed tpl kw (title_link d) \<and>
      fixed tpl kw (text d) \<and>
      (case buttons d of None \<Rightarrow> True | Some bs \<Rightarrow> list_all (fixed_button tpl kw) bs) \<and>
      fixed tpl kw (datetime d) \<and> fixed tpl kw (context d))"

section \<open>An engine for the examples\<close>

text \<open>
  The examples need a concrete engine. \<open>placeholders\<close> stands for the library on the
  templates the examples use, literal text and \<open>{{ name }}\<close> placeholders with a
  variable's name, and renders them the way the library does by default: one newline at
  the end of the template is dropped; a placeholder is the value of \<open>name\<close> in the
  keyword arguments, \<open>None\<close> as \<open>"None"\<close>, an undefined name as the empty string; a
  comment \<open>{# ... #}\<close> is left out; an empty or unclosed placeholder and an unclosed
  comment are syntax errors. The rest of the library's language, statements
  \<open>{% ... %}\<close> and placeholders that hold more than a name, is not modelled:
  \<open>placeholders\<close> answers \<open>Unsupported\<close>. The general theorems hold for every engine;
  only the closed examples use this one.
\<close>

datatype scan = Lit | Var string | Comment

definition show_value :: "pyval option \<Rightarrow> string" where
  "show_value v = (case v of None \<Rightarrow> [] | Some PyNone \<Rightarrow> ''None'' | Some (PyStr s) \<Rightarrow> s)"

text \<open>A name: letters, digits and underscores.\<close>

definition name_char :: "char \<Rightarrow> bool" where
  "name_char c =
     (c \<in> set ''abcdefghijklmnopqrstuvwxyzABCDEFGHIJKLMNOPQRSTUVWXYZ0123456789_'')"

definition lookup :: "kwargs \<Rightarrow> string \<Rightarrow> error + string" where
  "lookup kw n =
     (if n = [] then Inl TemplateError
      else if list_all name_char n then Inr (show_value (kw n))
      else Inl Unsupported)"

fun substitute :: "kwargs \<Rightarrow> scan \<Rightarrow> string \<Rightarrow> error + string" where
  "substitute kw Lit [] = Inr []"
| "substitute kw Lit [c] = Inr [c]"
| "substitute kw Lit (c # c' # cs) =
     (if c = CHR ''{'' \<and> c' = CHR ''{'' then substitute kw (Var []) cs
      else if c = CHR ''{'' \<and> c' = CHR ''#'' then substitute kw Comment cs
      else if c = CHR ''{'' \<and> c' = CHR ''%'' then Inl Unsupported
      else ebind (substitute kw Lit (c' # cs)) (\<lambda>r. Inr (c # r)))"
| "substitute kw (Var n) [] = Inl TemplateError"
| "substitute kw (Var n) [c] = Inl TemplateError"
| "substitute kw (Var n) (c # c' # cs) =
     (if c = CHR ''}'' \<and> c' = CHR ''}''
      then ebind (lookup kw (filter (\<lambda>x. x \<noteq> CHR '' '') n)) (\<lambda>v.
           ebind (substitute kw Lit cs) (\<lambda>r. Inr (v @ r)))
      else substitute kw (Var (n @ [c])) (c' # cs))"
| "substitute kw Comment [] = Inl TemplateError"
| "substitute kw Comment [c] = Inl TemplateError"
| "substitute kw Comment (c # c' # cs) =
     (if c = CHR ''#'' \<and> c' = CHR ''}'' then substitute kw Lit cs
      else substitute kw Comment (c' # cs))"

text \<open>The template without the one newline at its end.\<close>

definition strip_newline :: "string \<Rightarrow> string" where
  "strip_newline s = (if s \<noteq> [] \<and> last s = CHR 0x0A then butlast s else s)"

definition placeholders :: engine where
  "placeholders s kw = substitute kw Lit (strip_newline s)"

text \<open>The dict \<open>{}\<close> as a block, and the blocks and contexts of the examples.\<close>

definition empty_block :: "button list block" where
  "empty_block =
     \<lparr>header = None, title = None, title_link = None, text = None, buttons = None,
      status_mapping = None, datetime = None, context = None\<rparr>"

definition status_descriptions :: "(pyval \<times> string) list" where
  "status_descriptions =
     [(PyStr ''Active'', ''This incident is under active investigation.''),
      (PyStr ''Closed'', ''This no longer requires additional involvement.'')]"

definition long_text :: string where
  "long_text = replicate 2501 CHR ''a''"

definition active_kwargs :: kwargs where
  "active_kwargs = [''status'' \<mapsto> PyStr ''Active'', ''description'' \<mapsto> PyStr long_text]"

section \<open>render\_message\_template on a store\<close>

text \<open>
  The renderer writes into dicts, and whether the caller sees the writes depends on which
  objects the dicts are. Here the objects live in a store: a block dict, whose
  \<open>"buttons"\<close> key holds the address of a list; a list of addresses (the template
  itself, a list of buttons, the result); a button dict. An address is a position in
  the store, and allocation appends. Strings and the status mapping are never written to
  and stay values inside their dict.
\<close>

type_synonym addr = nat

datatype obj = Dict "addr block" | ListObj "addr list" | ButtonObj button

type_synonym store = "obj list"

text \<open>
  A computation on the store returns a value or raises, and leaves a store either way.
\<close>

type_synonym 'a st = "store \<Rightarrow> (error + 'a) \<times> store"

definition sreturn :: "'a \<Rightarrow> 'a st" where
  "sreturn x h = (Inr x, h)"

definition lift :: "error + 'a \<Rightarrow> 'a st" where
  "lift r h = (r, h)"

definition sbind :: "'a st \<Rightarrow> ('a \<Rightarrow> 'b st) \<Rightarrow> 'b st" where
  "sbind m f h = (case m h of (Inl e, h') \<Rightarrow> (Inl e, h') | (Inr x, h') \<Rightarrow> f x h')"

definition alloc :: "obj \<Rightarrow> addr st" where
  "alloc v h = (Inr (length h), h @ [v])"

definition write_obj :: "addr \<Rightarrow> obj \<Rightarrow> unit st" where
  "write_obj a v h = (Inr (), h[a := v])"

definition read_dict :: "addr \<Rightarrow> addr block st" where
  "read_dict a h =
     (if a < length h then (case h ! a of Dict d \<Rightarrow> (Inr d, h) | _ \<Rightarrow> (Inl TypeError, h))
      else (Inl TypeError, h))"

definition read_list :: "addr \<Rightarrow> addr list st" where
  "read_list a h =
     (if a < length h then (case h ! a of ListObj as \<Rightarrow> (Inr as, h) | _ \<Rightarrow> (Inl TypeError, h))
      else (Inl TypeError, h))"

definition read_button :: "addr \<Rightarrow> button st" where
  "read_button a h =
     (if a < length h then (case h ! a of ButtonObj b \<Rightarrow> (Inr b, h) | _ \<Rightarrow> (Inl TypeError, h))
      else (Inl TypeError, h))"

fun for_each :: "(addr \<Rightarrow> unit st) \<Rightarrow> addr list \<Rightarrow> unit st" where
  "for_each f [] = sreturn ()"
| "for_each f (a # as) = sbind (f a) (\<lambda>_. for_each f as)"

subsection \<open>copy.deepcopy\<close>

text \<open>
  \<open>copy.deepcopy\<close> is the library's; on a template it copies the list, every block
  dict, every list of buttons and every button dict. Its memo maps an object it has
  copied to the copy, so an object that is reached twice is copied once.
\<close>

type_synonym memo = "addr \<rightharpoonup> addr"

definition copy_button :: "addr \<Rightarrow> memo \<Rightarrow> (addr \<times> memo) st" where
  "copy_button a m =
     (case m a of
        Some a' \<Rightarrow> sreturn (a', m)
      | None \<Rightarrow>
          sbind (read_button a) (\<lambda>b.
          sbind (alloc (ButtonObj b)) (\<lambda>a'. sreturn (a', m(a \<mapsto> a')))))"

fun copy_each ::
  "(addr \<Rightarrow> memo \<Rightarrow> (addr \<times> memo) st) \<Rightarrow> addr list \<Rightarrow> memo \<Rightarrow> (addr list \<times> memo) st" where
  "copy_each f [] m = sreturn ([], m)"
| "copy_each f (a # as) m =
     sbind (f a m) (\<lambda>r.
     sbind (copy_each f as (snd r)) (\<lambda>rs. sreturn (fst r # fst rs, snd rs)))"

definition copy_list ::
  "(addr \<Rightarrow> memo \<Rightarrow> (addr \<times> memo) st) \<Rightarrow> addr \<Rightarrow> memo \<Rightarrow> (addr \<times> memo) st" where
  "copy_list f a m =
     (case m a of
        Some a' \<Rightarrow> sreturn (a', m)
      | None \<Rightarrow>
          sbind (read_list a) (\<lambda>as.
          sbind (copy_each f as m) (\<lambda>rs.
          sbind (alloc (ListObj (fst rs))) (\<lambda>a'. sreturn (a', (snd rs)(a \<mapsto> a'))))))"

definition copy_dict :: "addr \<Rightarrow> memo \<Rightarrow> (addr \<times> memo) st" where
  "copy_dict a m =
     (case m a of
        Some a' \<Rightarrow> sreturn (a', m)
      | None \<Rightarrow>
          sbind (read_dict a) (\<lambda>d.
            case buttons d of
              None \<Rightarrow> sbind (alloc (Dict d)) (\<lambda>a'. sreturn (a', m(a \<mapsto> a')))
            | Some l \<Rightarrow>
                sbind (copy_list copy_button l m) (\<lambda>r.
                sbind (alloc (Dict (d\<lparr>buttons := Some (fst r)\<rparr>))) (\<lambda>a'.
                  sreturn (a', (snd r)(a \<mapsto> a'))))))"

definition deepcopy :: "addr \<Rightarrow> addr st" where
  "deepcopy a = sbind (copy_list copy_dict a Map.empty) (\<lambda>r. sreturn (fst r))"

subsection \<open>The loop body, one write after the other\<close>

text \<open>\<open>if d.get(k): d[k] = Template(d[k]).render(**kwargs)\<close> for the four plain keys.\<close>

definition render_header_at :: "engine \<Rightarrow> kwargs \<Rightarrow> addr \<Rightarrow> unit st" where
  "render_header_at tpl kw a =
     sbind (read_dict a) (\<lambda>d.
     sbind (lift (render_key tpl kw (header d))) (\<lambda>v. write_obj a (Dict (d\<lparr>header := v\<rparr>))))"

definition render_title_at :: "engine \<Rightarrow> kwargs \<Rightarrow> addr \<Rightarrow> unit st" where
  "render_title_at tpl kw a =
     sbind (read_dict a) (\<lambda>d.
     sbind (lift (render_key tpl kw (title d))) (\<lambda>v. write_obj a (Dict (d\<lparr>title := v\<rparr>))))"

definition render_datetime_at :: "engine \<Rightarrow> kwargs \<Rightarrow> addr \<Rightarrow> unit st" where
  "render_datetime_at tpl kw a =
     sbind (read_dict a) (\<lambda>d.
     sbind (lift (render_key tpl kw (datetime d))) (\<lambda>v. write_obj a (Dict (d\<lparr>datetime := v\<rparr>))))"

definition render_context_at :: "engine \<Rightarrow> kwargs \<Rightarrow> addr \<Rightarrow> unit st" where
  "render_context_at tpl kw a =
     sbind (read_dict a) (\<lambda>d.
     sbind (lift (render_key tpl kw (context d))) (\<lambda>v. write_obj a (Dict (d\<lparr>context := v\<rparr>))))"

text \<open>
  The \<open>title_link\<close> step writes the rendered link first and tests it after; it returns
  whether the loop goes on with the block (\<open>False\<close> is \<open>continue\<close>).
\<close>

definition render_title_link_at :: "engine \<Rightarrow> kwargs \<Rightarrow> addr \<Rightarrow> bool st" where
  "render_title_link_at tpl kw a =
     sbind (read_dict a) (\<lambda>d.
       case title_link d of
         None \<Rightarrow> sreturn True
       | Some s \<Rightarrow>
           if s \<noteq> [] then
             sbind (lift (tpl s kw)) (\<lambda>r.
             sbind (write_obj a (Dict (d\<lparr>title_link := Some r\<rparr>))) (\<lambda>_.
               if r = ''None'' then sreturn False
               else if r = [] then sreturn False
               else sreturn True))
           else sreturn True)"

definition render_text_at :: "engine \<Rightarrow> kwargs \<Rightarrow> addr \<Rightarrow> unit st" where
  "render_text_at tpl kw a =
     sbind (read_dict a) (\<lambda>d.
     sbind (lift (render_text tpl kw d)) (\<lambda>d'. write_obj a (Dict d')))"

definition render_button_at :: "engine \<Rightarrow> kwargs \<Rightarrow> addr \<Rightarrow> unit st" where
  "render_button_at tpl kw a =
     sbind (read_button a) (\<lambda>b.
     sbind (lift (render_button tpl kw b)) (\<lambda>b'. write_obj a (ButtonObj b')))"

definition render_buttons_at :: "engine \<Rightarrow> kwargs \<Rightarrow> addr \<Rightarrow> unit st" where
  "render_buttons_at tpl kw a =
     sbind (read_dict a) (\<lambda>d.
       case buttons d of
         None \<Rightarrow> sreturn ()
       | Some l \<Rightarrow>
           sbind (read_list l) (\<lambda>bs.
             if bs \<noteq> [] then for_each (render_button_at tpl kw) bs else sreturn ()))"

definition render_status_at :: "kwargs \<Rightarrow> addr \<Rightarrow> unit st" where
  "render_status_at kw a =
     sbind (read_dict a) (\<lambda>d.
     sbind (lift (render_status kw d)) (\<lambda>d'. write_obj a (Dict d')))"

definition append_at :: "addr \<Rightarrow> addr \<Rightarrow> unit st" where
  "append_at data a = sbind (read_list data) (\<lambda>xs. write_obj data (ListObj (xs @ [a])))"

text \<open>
  The loop body in the three parts of \<open>render_block\<close>: the keys before the buttons
  (the result says whether the loop goes on with the block), the buttons, the keys
  after them; then \<open>data.append(d)\<close>.
\<close>

definition render_head_at :: "engine \<Rightarrow> kwargs \<Rightarrow> addr \<Rightarrow> bool st" where
  "render_head_at tpl kw a =
     sbind (render_header_at tpl kw a) (\<lambda>_.
     sbind (render_title_at tpl kw a) (\<lambda>_.
     sbind (render_title_link_at tpl kw a) (\<lambda>go.
       if go then sbind (render_text_at tpl kw a) (\<lambda>_. sreturn True)
       else sreturn False)))"

definition render_tail_at :: "engine \<Rightarrow> kwargs \<Rightarrow> addr \<Rightarrow> unit st" where
  "render_tail_at tpl kw a =
     sbind (render_status_at kw a) (\<lambda>_.
     sbind (render_datetime_at tpl kw a) (\<lambda>_.
       render_context_at tpl kw a))"

definition render_block_at :: "engine \<Rightarrow> kwargs \<Rightarrow> addr \<Rightarrow> addr \<Rightarrow> unit st" where
  "render_block_at tpl kw data a =
     sbind (render_head_at tpl kw a) (\<lambda>go.
       if go then
         sbind (render_buttons_at tpl kw a) (\<lambda>_.
         sbind (render_tail_at tpl kw a) (\<lambda>_.
           append_at data a))
       else sreturn ())"

text \<open>
  The function: \<open>data = []\<close>, the deep copy, the loop over the copy, \<open>return data\<close>.
  The argument and the result are the addresses of the two lists.
\<close>

definition render_message_template_store :: "engine \<Rightarrow> addr \<Rightarrow> kwargs \<Rightarrow> addr st" where
  "render_message_template_store tpl message_template kw =
     sbind (alloc (ListObj [])) (\<lambda>data.
     sbind (deepcopy message_template) (\<lambda>new_copy.
     sbind (read_list new_copy) (\<lambda>ds.
     sbind (for_each (render_block_at tpl kw data) ds) (\<lambda>_. sreturn data))))"

subsection \<open>Predicates of the store's properties\<close>

text \<open>The addresses an object holds.\<close>

fun refs :: "obj \<Rightarrow> addr set" where
  "refs (Dict d) = set_option (buttons d)"
| "refs (ListObj as) = set as"
| "refs (ButtonObj b) = {}"

text \<open>From address \<open>n\<close> on, the objects of the store hold only addresses from \<open>n\<close> on.\<close>

definition closed_from :: "nat \<Rightarrow> store \<Rightarrow> bool" where
  "closed_from n h = (\<forall>a. n \<le> a \<and> a < length h \<longrightarrow> (\<forall>r\<in>refs (h ! a). n \<le> r))"

text \<open>
  A computation keeps the store below \<open>n\<close>: run on a store that reaches \<open>n\<close> and is
  closed from there, it leaves every object below \<open>n\<close> as it was, takes no object
  away, leaves the store closed from \<open>n\<close>, and a value it returns satisfies \<open>Q\<close>.
\<close>

definition keeps_below :: "nat \<Rightarrow> 'a st \<Rightarrow> ('a \<Rightarrow> bool) \<Rightarrow> bool" where
  "keeps_below n m Q =
     (\<forall>h. n \<le> length h \<and> closed_from n h \<longrightarrow>
        length h \<le> length (snd (m h)) \<and>
        (\<forall>a<n. snd (m h) ! a = h ! a) \<and>
        closed_from n (snd (m h)) \<and>
        (\<forall>x. fst (m h) = Inr x \<longrightarrow> Q x))"

text \<open>The copies the memo holds are at addresses from \<open>n\<close> on.\<close>

definition memo_above :: "nat \<Rightarrow> memo \<Rightarrow> bool" where
  "memo_above n m = (\<forall>a a'. m a = Some a' \<longrightarrow> n \<le> a')"

text \<open>
  The store of the example: at 0 the template, a list of one block dict (at 1), whose
  buttons are the list at 2 of one button dict (at 3).
\<close>

definition empty_dict :: "addr block" where
  "empty_dict =
     \<lparr>header = None, title = None, title_link = None, text = None, buttons = None,
      status_mapping = None, datetime = None, context = None\<rparr>"

definition join_button :: button where
  "join_button = \<lparr>button_text = Some ''Join'', button_value = Some ''{{name}}'',
                  button_action = None, button_url = None\<rparr>"

definition example_store :: store where
  "example_store =
     [ListObj [1],
      Dict (empty_dict\<lparr>title := Some ''Hi {{name}}'', buttons := Some 2\<rparr>),
      ListObj [3],
      ButtonObj join_button]"


subsection \<open>Reading blocks off the store\<close>

text \<open>
  The value of a block dict in the store: the dict, with the list of buttons itself in
  place of its address. \<open>with_buttons\<close> swaps what the key \<open>"buttons"\<close> holds and
  keeps every other key.
\<close>

definition with_buttons :: "('a, 'z) block_scheme \<Rightarrow> 'b option \<Rightarrow> ('b, 'z) block_scheme" where
  "with_buttons d bs =
     \<lparr>header = header d, title = title d, title_link = title_link d, text = text d,
      buttons = bs, status_mapping = status_mapping d, datetime = datetime d,
      context = context d, \<dots> = block.more d\<rparr>"

text \<open>The object at an address, when it is of the kind asked for.\<close>

definition dict_at :: "store \<Rightarrow> addr \<Rightarrow> addr block option" where
  "dict_at h a =
     (if a < length h then (case h ! a of Dict d \<Rightarrow> Some d | _ \<Rightarrow> None) else None)"

definition list_at :: "store \<Rightarrow> addr \<Rightarrow> addr list option" where
  "list_at h a =
     (if a < length h then (case h ! a of ListObj as \<Rightarrow> Some as | _ \<Rightarrow> None) else None)"

definition button_at :: "store \<Rightarrow> addr \<Rightarrow> button option" where
  "button_at h a =
     (if a < length h then (case h ! a of ButtonObj b \<Rightarrow> Some b | _ \<Rightarrow> None) else None)"

text \<open>
  The list of buttons at an address, the block at an address, and the template (a list
  of blocks) at an address, as values; \<open>None\<close> when an address on the way holds no
  object of the right kind.
\<close>

definition buttons_at :: "store \<Rightarrow> addr \<Rightarrow> button list option" where
  "buttons_at h l =
     (case list_at h l of None \<Rightarrow> None | Some as \<Rightarrow> those (map (button_at h) as))"

definition block_at :: "store \<Rightarrow> addr \<Rightarrow> button list block option" where
  "block_at h a =
     (case dict_at h a of
        None \<Rightarrow> None
      | Some d \<Rightarrow>
          (case buttons d of
             None \<Rightarrow> Some (with_buttons d None)
           | Some l \<Rightarrow> map_option (\<lambda>bs. with_buttons d (Some bs)) (buttons_at h l)))"

definition template_at :: "store \<Rightarrow> addr \<Rightarrow> button list block list option" where
  "template_at h t =
     (case list_at h t of None \<Rightarrow> None | Some ds \<Rightarrow> those (map (block_at h) ds))"

text \<open>
  The addresses a block dict reaches: of its list of buttons, and of the buttons in
  that list.
\<close>

definition list_addr :: "store \<Rightarrow> addr \<Rightarrow> addr list" where
  "list_addr h a =
     (case dict_at h a of
        None \<Rightarrow> []
      | Some d \<Rightarrow> (case buttons d of None \<Rightarrow> [] | Some l \<Rightarrow> [l]))"

definition button_addrs :: "store \<Rightarrow> addr \<Rightarrow> addr list" where
  "button_addrs h a =
     concat (map (\<lambda>l. case list_at h l of None \<Rightarrow> [] | Some as \<Rightarrow> as) (list_addr h a))"

text \<open>
  No object occurs twice among the block dicts \<open>ds\<close>: the dicts are distinct, no list
  of buttons holds a button twice, and two of the dicts have neither their list of
  buttons nor a button in common.
\<close>

definition unshared :: "store \<Rightarrow> addr list \<Rightarrow> bool" where
  "unshared h ds =
     (distinct ds \<and>
      (\<forall>d\<in>set ds. distinct (button_addrs h d)) \<and>
      (\<forall>d\<in>set ds. \<forall>e\<in>set ds. d \<noteq> e \<longrightarrow>
         set (list_addr h d) \<inter> set (list_addr h e) = {} \<and>
         set (button_addrs h d) \<inter> set (button_addrs h e) = {}))"

text \<open>
  The list at \<open>t\<close> is a template with the value \<open>bs\<close> in which no object occurs
  twice. The templates of the module are such lists: none of them names a dict twice,
  and their lists of buttons are written out in place.
\<close>

definition holds :: "store \<Rightarrow> addr \<Rightarrow> button list block list \<Rightarrow> bool" where
  "holds h t bs =
     (template_at h t = Some bs \<and>
      (case list_at h t of None \<Rightarrow> False | Some ds \<Rightarrow> unshared h ds))"

text \<open>
  The store of a template of one block without buttons: the template list at 0 and the
  block dict at 1. And a template of three blocks, at 1, 2 and 3.
\<close>

definition single :: "addr block \<Rightarrow> store" where
  "single d = [ListObj [1], Dict d]"

definition roster_store :: store where
  "roster_store =
     [ListObj [1, 2, 3],
      Dict (empty_dict\<lparr>title := Some ''Commander''\<rparr>),
      Dict (empty_dict\<lparr>title := Some ''Ticket'', title_link := Some ''{{ticket_weblink}}''\<rparr>),
      Dict (empty_dict\<lparr>title := Some ''Title'', text := Some ''{{title}}''\<rparr>)]"

section \<open>The participant service\<close>

subsection \<open>The tables of the session\<close>

text \<open>
  The rows the service reads and writes. A participant carries the columns the service
  names (\<open>id\<close> is \<open>participant_id\<close> here), the \<open>service\<close> relationship beside its
  foreign key \<open>service_id\<close>, and its list of roles. Team, department and location hold
  whatever the contact lookup gave, a string or \<open>None\<close>.
\<close>

record service =
  svc_id :: nat
  svc_name :: string

record participant_role =
  role :: string
  renounced_at :: "nat option"

datatype participant_role_create = ParticipantRoleCreate string

record participant =
  participant_id :: nat
  incident_id :: "nat option"
  individual_contact_id :: "nat option"
  team :: pyval
  department :: pyval
  location :: pyval
  service_id :: "nat option"
  service :: "service option"
  participant_roles :: "participant_role list"
  user_conversation_id :: "string option"

record incident =
  project_id :: nat

record individual_contact =
  email :: string

text \<open>
  The session: the participant table in row order, the other tables by primary key, the
  active contact plugin of each project, and the next primary key of the participant
  table. A plugin is its \<open>get\<close>, from an email address to what it returns: a dict, or
  \<open>None\<close>.
\<close>

record db =
  participants :: "participant list"
  services :: "service list"
  incidents :: "nat \<rightharpoonup> incident"
  individual_contacts :: "nat \<rightharpoonup> individual_contact"
  contact_plugins :: "nat \<rightharpoonup> (string \<Rightarrow> (string \<rightharpoonup> pyval) option)"
  next_id :: nat

subsection \<open>Queries\<close>

text \<open>
  A query is the list of the positions of the rows that pass its filters; a position
  stands for the object the session hands out for that row. \<open>first()\<close> is the first
  position or \<open>None\<close>, \<open>one_or_none()\<close> raises on more than one.
\<close>

definition rows_where :: "(participant \<Rightarrow> bool) \<Rightarrow> db \<Rightarrow> nat list" where
  "rows_where P s = filter (\<lambda>i. P (participants s ! i)) [0..<length (participants s)]"

fun first :: "nat list \<Rightarrow> nat option" where
  "first [] = None"
| "first (i # is) = Some i"

fun one_or_none :: "nat list \<Rightarrow> error + nat option" where
  "one_or_none [] = Inr None"
| "one_or_none [i] = Inr (Some i)"
| "one_or_none (i # j # is) = Inl MultipleResultsFound"

definition row :: "db \<Rightarrow> nat option \<Rightarrow> participant option" where
  "row s r = map_option (\<lambda>i. participants s ! i) r"

definition get :: "db \<Rightarrow> nat \<Rightarrow> participant option" where
  "get s pid = row s (first (rows_where (\<lambda>p. participant_id p = pid) s))"

definition get_all :: "db \<Rightarrow> participant list" where
  "get_all s = participants s"

definition get_all_by_incident_id :: "db \<Rightarrow> nat \<Rightarrow> participant list" where
  "get_all_by_incident_id s iid = filter (\<lambda>p. incident_id p = Some iid) (participants s)"

definition has_active_role :: "string \<Rightarrow> participant \<Rightarrow> bool" where
  "has_active_role r p =
     list_ex (\<lambda>pr. renounced_at pr = None \<and> role pr = r) (participant_roles p)"

definition get_by_incident_id_and_role :: "db \<Rightarrow> nat \<Rightarrow> string \<Rightarrow> error + participant option" where
  "get_by_incident_id_and_role s iid r =
     ebind (one_or_none (rows_where (\<lambda>p. incident_id p = Some iid \<and> has_active_role r p) s))
       (\<lambda>i. Inr (row s i))"

definition has_email :: "db \<Rightarrow> string \<Rightarrow> participant \<Rightarrow> bool" where
  "has_email s e p =
     (case individual_contact_id p of
        None \<Rightarrow> False
      | Some c \<Rightarrow> (case individual_contacts s c of None \<Rightarrow> False | Some ic \<Rightarrow> email ic = e))"

definition get_by_incident_id_and_email :: "db \<Rightarrow> nat \<Rightarrow> string \<Rightarrow> error + participant option" where
  "get_by_incident_id_and_email s iid e =
     ebind (one_or_none (rows_where (\<lambda>p. incident_id p = Some iid \<and> has_email s e p) s))
       (\<lambda>i. Inr (row s i))"

definition get_by_incident_id_and_service_id ::
  "db \<Rightarrow> nat \<Rightarrow> nat \<Rightarrow> error + participant option" where
  "get_by_incident_id_and_service_id s iid sid =
     ebind (one_or_none (rows_where (\<lambda>p. incident_id p = Some iid \<and> service_id p = Some sid) s))
       (\<lambda>i. Inr (row s i))"

definition get_by_incident_id_and_conversation_id ::
  "db \<Rightarrow> nat \<Rightarrow> string \<Rightarrow> error + participant option" where
  "get_by_incident_id_and_conversation_id s iid c =
     ebind (one_or_none
        (rows_where (\<lambda>p. incident_id p = Some iid \<and> user_conversation_id p = Some c) s))
       (\<lambda>i. Inr (row s i))"

subsection \<open>Collaborators\<close>

text \<open>
  Modelled from the spec: the role creation collaborator
  \<open>participant_role_service.create\<close>, which is not among the sources. It makes the role
  record of a role specification; the record is active, its \<open>renounced_at\<close> unset.
\<close>

fun participant_role_service_create :: "participant_role_create \<Rightarrow> participant_role" where
  "participant_role_service_create (ParticipantRoleCreate r) =
     \<lparr>role = r, renounced_at = None\<rparr>"

text \<open>
  Modelled from the spec: the service lookup \<open>service_service.get\<close>, which is not among
  the sources. It gives the service with the identifier, or \<open>None\<close>; for the identifier
  \<open>None\<close> there is no service.
\<close>

definition service_service_get :: "db \<Rightarrow> nat option \<Rightarrow> service option" where
  "service_service_get s sid =
     (case sid of None \<Rightarrow> None | Some k \<Rightarrow> find (\<lambda>v. svc_id v = k) (services s))"

subsection \<open>create\<close>

text \<open>
  \<open>ParticipantCreate\<close> as \<open>get_or_create\<close> and \<open>create\<close> use it: the roles, the three
  fields and the optional service reference \<open>{"id": service_id}\<close>. It has no incident
  and no individual: the participant \<open>create\<close> builds refers to neither.
\<close>

record participant_create =
  participant_roles_in :: "participant_role_create list"
  team_in :: pyval
  department_in :: pyval
  location_in :: pyval
  service_in :: "nat option"

definition create :: "db \<Rightarrow> participant_create \<Rightarrow> participant \<times> db" where
  "create s participant_in =
     (let roles = map participant_role_service_create (participant_roles_in participant_in);
          svc = (case service_in participant_in of
                   None \<Rightarrow> None
                 | Some k \<Rightarrow> service_service_get s (Some k));
          p = \<lparr>participant_id = next_id s, incident_id = None, individual_contact_id = None,
               team = team_in participant_in, department = department_in participant_in,
               location = location_in participant_in,
               service_id = map_option svc_id svc, service = svc,
               participant_roles = roles, user_conversation_id = None\<rparr>
      in (p, s\<lparr>participants := participants s @ [p], next_id := Suc (next_id s)\<rparr>))"

subsection \<open>get\_or\_create\<close>

text \<open>
  \<open>individual_info\<close>: \<open>{}\<close> without a plugin, and with one whatever its \<open>get\<close>
  returns for the individual's email, a dict or \<open>None\<close>. \<open>incident.project\<close> on a
  missing incident and \<open>individual_contact.email\<close> on a missing individual are
  attribute reads on \<open>None\<close>.
\<close>

definition individual_info :: "db \<Rightarrow> nat \<Rightarrow> nat \<Rightarrow> error + (string \<rightharpoonup> pyval) option" where
  "individual_info s iid cid =
     (case incidents s iid of
        None \<Rightarrow> Inl AttributeError
      | Some inc \<Rightarrow>
          (case contact_plugins s (project_id inc) of
             None \<Rightarrow> Inr (Some Map.empty)
           | Some plugin \<Rightarrow>
               (case individual_contacts s cid of
                  None \<Rightarrow> Inl AttributeError
                | Some ic \<Rightarrow> Inr (plugin (email ic)))))"

text \<open>
  \<open>individual_info.get(k, "Unknown")\<close>: the value of the key, \<open>"Unknown"\<close> for a dict
  without the key, and an attribute read on \<open>None\<close> when the plugin returned \<open>None\<close>.
\<close>

definition get_or_unknown :: "(string \<rightharpoonup> pyval) option \<Rightarrow> string \<Rightarrow> error + pyval" where
  "get_or_unknown info k =
     (case info of
        None \<Rightarrow> Inl AttributeError
      | Some d \<Rightarrow> Inr (case d k of None \<Rightarrow> PyStr ''Unknown'' | Some v \<Rightarrow> v))"

text \<open>\<open>if service_id:\<close> on an optional integer: it is there and not zero.\<close>

definition truthy_id :: "nat option \<Rightarrow> bool" where
  "truthy_id sid = (case sid of None \<Rightarrow> False | Some k \<Rightarrow> k \<noteq> 0)"

text \<open>The branch \<open>if not participant\<close>: a new participant.\<close>

definition create_new ::
  "db \<Rightarrow> nat \<Rightarrow> nat \<Rightarrow> nat option \<Rightarrow> participant_role_create list \<Rightarrow> error + participant \<times> db" where
  "create_new s iid cid sid roles =
     ebind (individual_info s iid cid) (\<lambda>info.
     ebind (get_or_unknown info ''location'') (\<lambda>loc.
     ebind (get_or_unknown info ''team'') (\<lambda>tm.
     ebind (get_or_unknown info ''department'') (\<lambda>dep.
       Inr (create s
         \<lparr>participant_roles_in = roles, team_in = tm, department_in = dep,
          location_in = loc,
          service_in = (if truthy_id sid then sid else None)\<rparr>)))))"

text \<open>
  The \<open>else\<close> branch, on the participant the query found: append the new roles, and
  associate the service when the participant has none and the lookup finds one.
\<close>

definition add_roles_and_service ::
  "db \<Rightarrow> nat option \<Rightarrow> participant_role_create list \<Rightarrow> participant \<Rightarrow> participant" where
  "add_roles_and_service s sid roles p =
     (let p1 = p\<lparr>participant_roles :=
                   participant_roles p @ map participant_role_service_create roles\<rparr>
      in if service p1 = None then
           (case service_service_get s sid of
              None \<Rightarrow> p1
            | Some svc \<Rightarrow> p1\<lparr>service_id := sid, service := Some svc\<rparr>)
         else p1)"

definition get_or_create ::
  "db \<Rightarrow> nat \<Rightarrow> nat \<Rightarrow> nat option \<Rightarrow> participant_role_create list \<Rightarrow> error + participant \<times> db" where
  "get_or_create s iid cid sid roles =
     ebind (one_or_none
        (rows_where (\<lambda>p. incident_id p = Some iid \<and> individual_contact_id p = Some cid) s))
       (\<lambda>found.
          case found of
            None \<Rightarrow> create_new s iid cid sid roles
          | Some i \<Rightarrow>
              (let p = add_roles_and_service s sid roles (participants s ! i)
               in Inr (p, s\<lparr>participants := (participants s)[i := p]\<rparr>)))"

subsection \<open>update and delete\<close>

text \<open>
  Modelled from the spec: the schema \<open>ParticipantUpdate\<close>, which is not among the
  sources. An update specification names some of the participant's free-text attributes,
  team, department and location; \<open>update_data\<close> holds the ones it names (\<open>None\<close> here for
  an attribute it does not name). It has no field for the service: by the spec a service
  reference is never overwritten.
\<close>

record participant_update =
  team_upd :: "pyval option"
  department_upd :: "pyval option"
  location_upd :: "pyval option"

text \<open>
  The loop \<open>for field in participant_data: if field in update_data: setattr(...)\<close>: every
  column \<open>update_data\<close> names is overwritten, the others are left.
\<close>

definition setattrs :: "participant_update \<Rightarrow> participant \<Rightarrow> participant" where
  "setattrs u p =
     (let p1 = (case team_upd u of None \<Rightarrow> p | Some v \<Rightarrow> p\<lparr>team := v\<rparr>);
          p2 = (case department_upd u of None \<Rightarrow> p1 | Some v \<Rightarrow> p1\<lparr>department := v\<rparr>)
      in (case location_upd u of None \<Rightarrow> p2 | Some v \<Rightarrow> p2\<lparr>location := v\<rparr>))"

text \<open>The participant is an object of the session: the row at position \<open>i\<close>.\<close>

definition update :: "db \<Rightarrow> nat \<Rightarrow> participant_update \<Rightarrow> participant \<times> db" where
  "update s i participant_in =
     (let p = setattrs participant_in (participants s ! i)
      in (p, s\<lparr>participants := (participants s)[i := p]\<rparr>))"

text \<open>
  \<open>delete\<close>: the first row with the identifier, or \<open>None\<close>; \<open>db_session.delete(None)\<close>
  raises.
\<close>

definition delete :: "db \<Rightarrow> nat \<Rightarrow> error + db" where
  "delete s pid =
     (case first (rows_where (\<lambda>p. participant_id p = pid) s) of
        None \<Rightarrow> Inl UnmappedInstanceError
      | Some i \<Rightarrow>
          Inr (s\<lparr>participants := take i (participants s) @ drop (Suc i) (participants s)\<rparr>))"

subsection \<open>Predicates of the service's properties\<close>

text \<open>The primary key: identifiers are distinct and below the next one.\<close>

definition wf :: "db \<Rightarrow> bool" where
  "wf s = (distinct (map participant_id (participants s)) \<and>
           (\<forall>p\<in>set (participants s). participant_id p < next_id s))"


text \<open>The session of the examples: one incident, two services, no plugin, no participant.\<close>

definition empty_db :: db where
  "empty_db =
     \<lparr>participants = [],
      services = [\<lparr>svc_id = 1, svc_name = ''oncall-a''\<rparr>, \<lparr>svc_id = 2, svc_name = ''oncall-b''\<rparr>],
      incidents = [7 \<mapsto> \<lparr>project_id = 1\<rparr>],
      individual_contacts = [3 \<mapsto> \<lparr>email = ''ann@example.com''\<rparr>],
      contact_plugins = Map.empty,
      next_id = 1\<rparr>"

text \<open>
  A participant as \<open>get_or_create\<close> makes it without a plugin and without a service;
  a session where incident 7 and individual 3 have a participant; the same with the
  participant on service 1; a session whose project has a contact plugin that knows
  one team; and one whose plugin returns \<open>None\<close> for every address.
\<close>

definition new_participant :: "nat \<Rightarrow> string list \<Rightarrow> participant" where
  "new_participant k rs =
     \<lparr>participant_id = k, incident_id = None, individual_contact_id = None,
      team = PyStr ''Unknown'', department = PyStr ''Unknown'', location = PyStr ''Unknown'',
      service_id = None, service = None,
      participant_roles = map (\<lambda>r. \<lparr>role = r, renounced_at = None\<rparr>) rs,
      user_conversation_id = None\<rparr>"

definition linked_db :: db where
  "linked_db =
     empty_db\<lparr>participants :=
                 [(new_participant 1 [''Reporter''])
                    \<lparr>incident_id := Some 7, individual_contact_id := Some 3\<rparr>],
               next_id := 2\<rparr>"

definition served_db :: db where
  "served_db =
     empty_db\<lparr>participants :=
                 [(new_participant 1 [''Reporter''])
                    \<lparr>incident_id := Some 7, individual_contact_id := Some 3,
                     service_id := Some 1,
                     service := Some \<lparr>svc_id = 1, svc_name = ''oncall-a''\<rparr>\<rparr>],
               next_id := 2\<rparr>"

definition plugin_db :: db where
  "plugin_db =
     empty_db\<lparr>contact_plugins :=
                 [1 \<mapsto> (\<lambda>e. if e = ''ann@example.com'' then Some [''team'' \<mapsto> PyStr ''SRE'']
                            else Some Map.empty)]\<rparr>"

definition silent_plugin_db :: db where
  "silent_plugin_db = empty_db\<lparr>contact_plugins := [1 \<mapsto> (\<lambda>e. None)]\<rparr>"


section \<open>The renderer: steps and frames\<close>

lemma ebind_Inr_iff: "ebind m f = Inr y \<longleftrightarrow> (\<exists>x. m = Inr x \<and> f x = Inr y)"
  by (cases m) (simp_all add: ebind_def)

lemmas render_defs =
  render_block_def render_head_def render_key_def
  render_title_link_def render_text_def render_buttons_def render_button_def
  render_tail_def render_status_def status_lookup_def truncate_2500_def
  placeholders_def strip_newline_def lookup_def name_char_def ebind_def show_value_def
  empty_block_def

text \<open>Each step writes its own keys and no other.\<close>

lemma render_title_link_frame:
  assumes "render_title_link tpl kw d = Inr (Some d')"
  shows "header d' = header d" "title d' = title d" "text d' = text d" "buttons d' = buttons d"
    "status_mapping d' = status_mapping d" "datetime d' = datetime d" "context d' = context d"
    "block.more d' = block.more d"
  using assms
  by (auto simp: render_title_link_def ebind_Inr_iff split: option.splits if_splits)

lemma render_text_frame:
  assumes "render_text tpl kw d = Inr d'"
  shows "header d' = header d" "title d' = title d" "title_link d' = title_link d"
    "buttons d' = buttons d"
    "status_mapping d' = status_mapping d" "datetime d' = datetime d" "context d' = context d"
    "block.more d' = block.more d"
  using assms
  by (auto simp: render_text_def ebind_Inr_iff split: option.splits if_splits)

lemma render_head_frame:
  assumes "render_head tpl kw d = Inr (Some d')"
  shows "buttons d' = buttons d"
    "status_mapping d' = status_mapping d" "datetime d' = datetime d" "context d' = context d"
    "block.more d' = block.more d"
  using assms unfolding render_head_def
  by (auto simp: ebind_Inr_iff render_title_link_frame render_text_frame split: option.splits)

lemma render_buttons_frame:
  assumes "render_buttons tpl kw d = Inr d'"
  shows "header d' = header d" "title d' = title d" "title_link d' = title_link d"
    "text d' = text d"
    "status_mapping d' = status_mapping d" "datetime d' = datetime d" "context d' = context d"
    "block.more d' = block.more d"
  using assms
  by (auto simp: render_buttons_def ebind_Inr_iff split: option.splits if_splits)

lemma render_block_Some_iff:
  "render_block tpl kw d = Inr (Some d') \<longleftrightarrow>
     (\<exists>d1 d2. render_head tpl kw d = Inr (Some d1) \<and> render_buttons tpl kw d1 = Inr d2 \<and>
        render_tail tpl kw d2 = Inr d')"
  by (auto simp: render_block_def ebind_Inr_iff split: option.splits)

lemma render_head_Some_iff:
  "render_head tpl kw d = Inr (Some d') \<longleftrightarrow>
     (\<exists>h t d1. render_key tpl kw (header d) = Inr h \<and> render_key tpl kw (title d) = Inr t \<and>
        render_title_link tpl kw (d\<lparr>header := h, title := t\<rparr>) = Inr (Some d1) \<and>
        render_text tpl kw d1 = Inr d')"
  unfolding render_head_def
  by (auto simp: ebind_Inr_iff split: option.splits)

subsection \<open>Skipped blocks\<close>

lemma render_title_link_None_iff:
  "render_title_link tpl kw (d\<lparr>header := h, title := t\<rparr>) = Inr None \<longleftrightarrow> skipped tpl kw d"
  by (auto simp: render_title_link_def skipped_def ebind_def split: option.splits sum.splits)

lemma render_title_link_Some_not_skipped:
  "render_title_link tpl kw (d\<lparr>header := h, title := t\<rparr>) = Inr (Some d') \<Longrightarrow>
     \<not> skipped tpl kw d"
  by (auto simp: render_title_link_def skipped_def ebind_def
      split: option.splits sum.splits if_splits)

lemma render_head_None_iff:
  "render_head tpl kw d = Inr None \<longleftrightarrow>
     (\<exists>h t. render_key tpl kw (header d) = Inr h \<and> render_key tpl kw (title d) = Inr t) \<and>
     skipped tpl kw d"
  unfolding render_head_def
  by (auto simp: ebind_Inr_iff render_title_link_None_iff split: option.splits)

lemma render_head_Some_not_skipped:
  "render_head tpl kw d = Inr (Some d') \<Longrightarrow> \<not> skipped tpl kw d"
  unfolding render_head_def
  by (auto simp: ebind_Inr_iff split: option.splits dest: render_title_link_Some_not_skipped)

lemma render_block_None_iff:
  "render_block tpl kw d = Inr None \<longleftrightarrow> render_head tpl kw d = Inr None"
  by (auto simp: render_block_def ebind_Inr_iff split: option.splits)

lemma render_block_Inr_skipped:
  "render_block tpl kw d = Inr r \<Longrightarrow> (r = None) = skipped tpl kw d"
  apply (cases r)
   apply (simp add: render_block_None_iff render_head_None_iff)
  apply (auto simp: render_block_Some_iff dest: render_head_Some_not_skipped)
  done

text \<open>
  What a returning loop has built: \<open>data\<close>, then the rendering of every block that is
  not skipped, in the order of the input.
\<close>

lemma render_values_Inr:
  "render_values tpl kw data ds = Inr out \<Longrightarrow>
     \<exists>rs. out = data @ rs \<and>
       list_all2 (\<lambda>d d'. render_block tpl kw d = Inr (Some d'))
         (filter (\<lambda>d. \<not> skipped tpl kw d) ds) rs \<and>
       (\<forall>d\<in>set ds. skipped tpl kw d \<longrightarrow> render_block tpl kw d = Inr None)"
proof (induction ds arbitrary: data out)
  case Nil
  then show ?case by simp
next
  case (Cons d ds)
  show ?case
  proof (cases "render_block tpl kw d")
    case (Inl e)
    with Cons.prems show ?thesis by simp
  next
    case (Inr r)
    note rb = this
    show ?thesis
    proof (cases r)
      case None
      with rb Cons.prems have "render_values tpl kw data ds = Inr out" by simp
      from Cons.IH[OF this] obtain rs where rs: "out = data @ rs"
        "list_all2 (\<lambda>d d'. render_block tpl kw d = Inr (Some d'))
         (filter (\<lambda>d. \<not> skipped tpl kw d) ds) rs"
        "\<forall>d\<in>set ds. skipped tpl kw d \<longrightarrow> render_block tpl kw d = Inr None" by blast
      from rb None have "skipped tpl kw d" using render_block_Inr_skipped by blast
      with rs rb None show ?thesis by auto
    next
      case (Some d')
      with rb Cons.prems have "render_values tpl kw (data @ [d']) ds = Inr out" by simp
      from Cons.IH[OF this] obtain rs where rs: "out = (data @ [d']) @ rs"
        "list_all2 (\<lambda>d d'. render_block tpl kw d = Inr (Some d'))
         (filter (\<lambda>d. \<not> skipped tpl kw d) ds) rs"
        "\<forall>d\<in>set ds. skipped tpl kw d \<longrightarrow> render_block tpl kw d = Inr None" by blast
      from rb Some have "\<not> skipped tpl kw d" using render_block_Inr_skipped by blast
      with rs rb Some show ?thesis by auto
    qed
  qed
qed

lemma render_values_all_Inr:
  assumes "render_values tpl kw [] bs = Inr out"
  shows "list_all2 (\<lambda>d d'. render_block tpl kw d = Inr (Some d'))
           (filter (\<lambda>d. \<not> skipped tpl kw d) bs) out"
    and "\<forall>d\<in>set bs. skipped tpl kw d \<longrightarrow> render_block tpl kw d = Inr None"
  using assms render_values_Inr[of tpl kw "[]" bs out] by auto

lemma length_filter_not: "length (filter (\<lambda>x. \<not> P x) xs) = length xs - length (filter P xs)"
  using sum_length_filter_compl[of P xs] by arith

lemma render_values_member:
  assumes "render_values tpl kw [] bs = Inr out" and "d \<in> set bs"
    and "\<not> skipped tpl kw d"
  shows "\<exists>d'\<in>set out. render_block tpl kw d = Inr (Some d')"
proof -
  from render_values_all_Inr(1)[OF assms(1)]
  have l: "list_all2 (\<lambda>d d'. render_block tpl kw d = Inr (Some d'))
           (filter (\<lambda>d. \<not> skipped tpl kw d) bs) out" .
  from assms(2,3) have "d \<in> set (filter (\<lambda>d. \<not> skipped tpl kw d) bs)" by simp
  then obtain i where "i < length (filter (\<lambda>d. \<not> skipped tpl kw d) bs)"
     "filter (\<lambda>d. \<not> skipped tpl kw d) bs ! i = d" unfolding in_set_conv_nth by blast
  with l have "render_block tpl kw d = Inr (Some (out ! i))" "i < length out"
    by (auto simp: list_all2_conv_all_nth)
  then show ?thesis by (auto intro: bexI[of _ "out ! i"])
qed

lemma render_values_Inl:
  "d \<in> set ds \<Longrightarrow> render_block tpl kw d = Inl e \<Longrightarrow> \<exists>e'. render_values tpl kw data ds = Inl e'"
proof (induction ds arbitrary: data)
  case Nil
  then show ?case by simp
next
  case (Cons x xs)
  then show ?case
    by (cases "render_block tpl kw x") (auto split: option.splits)
qed

subsection \<open>The text of a rendered block\<close>

lemma render_text_text:
  assumes "render_text tpl kw d = Inr d'" "text d = Some s" "s \<noteq> []" "tpl s kw = Inr r"
  shows "text d' = Some (truncate_2500 r)"
  using assms by (auto simp: render_text_def ebind_Inr_iff)

lemma render_head_text:
  assumes "render_head tpl kw d = Inr (Some d1)" "text d = Some s" "s \<noteq> []" "tpl s kw = Inr r"
  shows "text d1 = Some (truncate_2500 r)"
proof -
  from assms(1) obtain h t d0 where
    tl: "render_title_link tpl kw (d\<lparr>header := h, title := t\<rparr>) = Inr (Some d0)"
    and tx: "render_text tpl kw d0 = Inr d1"
    by (auto simp: render_head_Some_iff)
  from tl have "text d0 = text d" by (simp add: render_title_link_frame)
  with tx assms show ?thesis by (simp add: render_text_text)
qed

lemma render_tail_text_keep:
  assumes "render_tail tpl kw d = Inr d'" "no_status_mapping d"
  shows "text d' = text d"
  using assms
  by (auto simp: render_tail_def render_status_def no_status_mapping_def ebind_Inr_iff
      split: option.splits if_splits)

lemma render_block_text:
  assumes "render_block tpl kw d = Inr (Some d')" "text d = Some s" "s \<noteq> []" "tpl s kw = Inr r"
    "no_status_mapping d"
  shows "text d' = Some (truncate_2500 r)"
proof -
  from assms(1) obtain d1 d2 where h: "render_head tpl kw d = Inr (Some d1)"
    and b: "render_buttons tpl kw d1 = Inr d2" and t: "render_tail tpl kw d2 = Inr d'"
    by (auto simp: render_block_Some_iff)
  from h b have "status_mapping d2 = status_mapping d"
    by (simp add: render_head_frame render_buttons_frame)
  with assms(5) have "no_status_mapping d2" by (simp add: no_status_mapping_def)
  with t have "text d' = text d2" by (rule render_tail_text_keep)
  also from b have "\<dots> = text d1" by (simp add: render_buttons_frame)
  also from h assms have "\<dots> = Some (truncate_2500 r)" by (simp add: render_head_text)
  finally show ?thesis .
qed

lemma render_tail_status_text:
  "render_tail tpl kw d = Inr d' \<Longrightarrow> status_mapping d = Some m \<Longrightarrow>
   kw ''status'' = Some st \<Longrightarrow> map_of m st = Some v \<Longrightarrow> text d' = Some v"
  by (auto simp: render_tail_def render_status_def status_lookup_def ebind_Inr_iff
      split: option.splits if_splits)

lemma render_tail_status:
  "render_tail tpl kw d = Inr d' \<Longrightarrow> status_mapping d = Some m \<Longrightarrow> m \<noteq> [] \<Longrightarrow>
     \<exists>v. status_lookup kw m = Inr v"
  by (auto simp: render_tail_def render_status_def ebind_Inr_iff)

lemma render_block_reaches_tail:
  assumes "render_block tpl kw d = Inr (Some d')"
  shows "\<exists>d2. render_tail tpl kw d2 = Inr d' \<and> status_mapping d2 = status_mapping d"
proof -
  from assms obtain d1 d2 where h: "render_head tpl kw d = Inr (Some d1)"
    and b: "render_buttons tpl kw d1 = Inr d2" and t: "render_tail tpl kw d2 = Inr d'"
    by (auto simp: render_block_Some_iff)
  from h b have "status_mapping d2 = status_mapping d"
    by (simp add: render_head_frame render_buttons_frame)
  with t show ?thesis by blast
qed

lemma status_lookup_Inl:
  "\<forall>st. kw ''status'' = Some st \<longrightarrow> map_of m st = None \<Longrightarrow> status_lookup kw m = Inl KeyError"
  by (auto simp: status_lookup_def split: option.splits)

subsection \<open>Rendering a rendered block again\<close>

lemma truncate_idem: "truncate_2500 (truncate_2500 s) = truncate_2500 s"
  by (simp add: truncate_2500_def)

lemma truncate_short: "length s \<le> 2500 \<Longrightarrow> truncate_2500 s = s"
  by (simp add: truncate_2500_def)

lemma length_truncate: "length (truncate_2500 s) \<le> 2500"
  by (simp add: truncate_2500_def)

lemma render_tail_frame:
  assumes "render_tail tpl kw d = Inr d'"
  shows "header d' = header d" "title d' = title d" "title_link d' = title_link d"
    "buttons d' = buttons d" "status_mapping d' = status_mapping d"
  using assms
  by (auto simp: render_tail_def render_status_def ebind_Inr_iff split: option.splits if_splits)

text \<open>What a rendered block looks like: its link, its text and its buttons.\<close>

lemma render_title_link_out:
  "render_title_link tpl kw d = Inr (Some d') \<Longrightarrow> title_link d' \<noteq> Some ''None''"
  by (auto simp: render_title_link_def ebind_Inr_iff split: option.splits if_splits)

lemma render_text_out:
  "render_text tpl kw d = Inr d' \<Longrightarrow> text d' = Some t \<Longrightarrow> length t \<le> 2500"
  by (auto simp: render_text_def ebind_Inr_iff length_truncate split: option.splits if_splits)

lemma render_button_out:
  "render_button tpl kw b = Inr b' \<Longrightarrow> button_text b' \<noteq> None \<and> button_value b' \<noteq> None"
  by (auto simp: render_button_def ebind_Inr_iff split: option.splits)

lemma render_button_list_out:
  "render_button_list tpl kw bs = Inr bs' \<Longrightarrow>
     \<forall>b\<in>set bs'. button_text b \<noteq> None \<and> button_value b \<noteq> None"
proof (induction bs arbitrary: bs')
  case Nil
  then show ?case by simp
next
  case (Cons b bs)
  from Cons.prems obtain b1 bs1 where r: "render_button tpl kw b = Inr b1"
    "render_button_list tpl kw bs = Inr bs1" "bs' = b1 # bs1"
    by (auto simp: ebind_Inr_iff)
  from render_button_out[OF r(1)] Cons.IH[OF r(2)] r(3) show ?case by simp
qed

lemma render_buttons_out:
  assumes "render_buttons tpl kw d = Inr d'" "buttons d' = Some bs"
  shows "\<forall>b\<in>set bs. button_text b \<noteq> None \<and> button_value b \<noteq> None"
proof (cases "buttons d")
  case None
  with assms show ?thesis by (simp add: render_buttons_def)
next
  case (Some bs0)
  show ?thesis
  proof (cases "bs0 = []")
    case True
    with Some assms show ?thesis by (auto simp: render_buttons_def)
  next
    case False
    with Some assms(1) obtain bs' where r: "render_button_list tpl kw bs0 = Inr bs'"
      "d' = d\<lparr>buttons := Some bs'\<rparr>"
      by (auto simp: render_buttons_def ebind_Inr_iff)
    with assms(2) have "bs' = bs" by simp
    with render_button_list_out[OF r(1)] show ?thesis by simp
  qed
qed

lemma render_block_out:
  assumes "render_block tpl kw d = Inr (Some x)"
  shows "title_link x \<noteq> Some ''None''"
    and "no_status_mapping x \<Longrightarrow> text x = Some t \<Longrightarrow> length t \<le> 2500"
    and "buttons x = Some bs \<Longrightarrow> \<forall>b\<in>set bs. button_text b \<noteq> None \<and> button_value b \<noteq> None"
proof -
  from assms obtain d1 d2 where h: "render_head tpl kw d = Inr (Some d1)"
    and b: "render_buttons tpl kw d1 = Inr d2" and t: "render_tail tpl kw d2 = Inr x"
    by (auto simp: render_block_Some_iff)
  from h obtain hd tt d0 where
    tl: "render_title_link tpl kw (d\<lparr>header := hd, title := tt\<rparr>) = Inr (Some d0)"
    and tx: "render_text tpl kw d0 = Inr d1"
    by (auto simp: render_head_Some_iff)
  from render_title_link_out[OF tl] tx b t show "title_link x \<noteq> Some ''None''"
    by (simp add: render_text_frame render_buttons_frame render_tail_frame)
  show "length t \<le> 2500" if n: "no_status_mapping x" and tx': "text x = Some t"
  proof -
    from t n have "no_status_mapping d2"
      by (simp add: no_status_mapping_def render_tail_frame)
    with t have "text x = text d2" by (rule render_tail_text_keep)
    with b tx' have "text d1 = Some t" by (simp add: render_buttons_frame)
    with tx show ?thesis by (rule render_text_out)
  qed
  show "\<forall>b\<in>set bs. button_text b \<noteq> None \<and> button_value b \<noteq> None" if "buttons x = Some bs"
  proof -
    from t that have "buttons d2 = Some bs" by (simp add: render_tail_frame)
    with b show ?thesis by (rule render_buttons_out)
  qed
qed

text \<open>A block the engine leaves as it is, rendered once more.\<close>

lemma render_key_fixed: "fixed tpl kw v \<Longrightarrow> render_key tpl kw v = Inr v"
  by (auto simp: fixed_def render_key_def ebind_def split: option.splits)

lemma render_button_fixed:
  "fixed_button tpl kw b \<Longrightarrow> button_text b \<noteq> None \<Longrightarrow> button_value b \<noteq> None \<Longrightarrow>
     render_button tpl kw b = Inr b"
  by (auto simp: render_button_def fixed_button_def fixed_def render_key_def ebind_def
      split: option.splits)

lemma render_button_list_fixed:
  "list_all (fixed_button tpl kw) bs \<Longrightarrow>
   \<forall>b\<in>set bs. button_text b \<noteq> None \<and> button_value b \<noteq> None \<Longrightarrow>
     render_button_list tpl kw bs = Inr bs"
  by (induction bs) (simp_all add: render_button_fixed ebind_def)

lemma render_block_fixed:
  assumes r: "render_block tpl kw d = Inr (Some x)"
    and f: "fixed_block tpl kw' x" and n: "no_status_mapping x"
  shows "render_block tpl kw' x = Inr (Some x)"
proof -
  note out = render_block_out[OF r]
  from f have k: "render_key tpl kw' (header x) = Inr (header x)"
    "render_key tpl kw' (title x) = Inr (title x)"
    "render_key tpl kw' (datetime x) = Inr (datetime x)"
    "render_key tpl kw' (context x) = Inr (context x)"
    by (simp_all add: fixed_block_def render_key_fixed)
  have e: "x\<lparr>header := header x, title := title x\<rparr> = x" by simp
  have tl: "render_title_link tpl kw' x = Inr (Some x)"
  proof (cases "title_link x")
    case None
    then show ?thesis by (simp add: render_title_link_def)
  next
    case (Some s)
    with f have "tpl s kw' = Inr s" by (simp add: fixed_block_def fixed_def)
    moreover from Some out(1) have "s \<noteq> ''None''" by simp
    ultimately show ?thesis using Some by (simp add: render_title_link_def ebind_def)
  qed
  have tx: "render_text tpl kw' x = Inr x"
  proof (cases "text x")
    case None
    then show ?thesis by (simp add: render_text_def)
  next
    case (Some t)
    with f have "tpl t kw' = Inr t" by (simp add: fixed_block_def fixed_def)
    moreover from out(2)[OF n Some] have "truncate_2500 t = t" by (rule truncate_short)
    ultimately show ?thesis using Some by (simp add: render_text_def ebind_def)
  qed
  have hd: "render_head tpl kw' x = Inr (Some x)"
    unfolding render_head_def k by (simp add: ebind_def e tl tx)
  have bt: "render_buttons tpl kw' x = Inr x"
  proof (cases "buttons x")
    case None
    then show ?thesis by (simp add: render_buttons_def)
  next
    case (Some bs)
    with f have "list_all (fixed_button tpl kw') bs" by (simp add: fixed_block_def)
    from render_button_list_fixed[OF this out(3)[OF Some]] Some show ?thesis
      by (simp add: render_buttons_def ebind_def)
  qed
  from n have "render_status kw' x = Inr x"
    by (auto simp: render_status_def no_status_mapping_def split: option.splits)
  with k have tail: "render_tail tpl kw' x = Inr x" by (simp add: render_tail_def ebind_def)
  from hd bt tail show ?thesis by (simp add: render_block_def ebind_def)
qed

lemma render_values_fixed:
  "\<forall>x\<in>set xs. render_block tpl kw x = Inr (Some x) \<Longrightarrow>
     render_values tpl kw data xs = Inr (data @ xs)"
  by (induction xs arbitrary: data) simp_all

section \<open>The store: what a computation leaves as it was\<close>

lemma keeps_belowI:
  assumes "\<And>h. n \<le> length h \<Longrightarrow> closed_from n h \<Longrightarrow>
     length h \<le> length (snd (m h)) \<and> (\<forall>a<n. snd (m h) ! a = h ! a) \<and>
     closed_from n (snd (m h)) \<and> (\<forall>x. fst (m h) = Inr x \<longrightarrow> Q x)"
  shows "keeps_below n m Q"
  using assms unfolding keeps_below_def by blast

lemma keeps_belowD:
  assumes "keeps_below n m Q" "n \<le> length h" "closed_from n h"
  shows "length h \<le> length (snd (m h))" "\<forall>a<n. snd (m h) ! a = h ! a"
    "closed_from n (snd (m h))" "\<forall>x. fst (m h) = Inr x \<longrightarrow> Q x"
  using assms unfolding keeps_below_def by blast+

lemma keeps_below_sreturn: "Q x \<Longrightarrow> keeps_below n (sreturn x) Q"
  by (simp add: keeps_below_def sreturn_def)

lemma keeps_below_lift: "(\<And>x. r = Inr x \<Longrightarrow> Q x) \<Longrightarrow> keeps_below n (lift r) Q"
  by (simp add: keeps_below_def lift_def)

lemma keeps_below_weaken:
  "keeps_below n m Q \<Longrightarrow> (\<And>x. Q x \<Longrightarrow> Q' x) \<Longrightarrow> keeps_below n m Q'"
  unfolding keeps_below_def by blast

lemma keeps_below_sbind:
  assumes m: "keeps_below n m Q" and f: "\<And>x. Q x \<Longrightarrow> keeps_below n (f x) R"
  shows "keeps_below n (sbind m f) R"
proof (rule keeps_belowI)
  fix h assume h: "n \<le> length h" "closed_from n h"
  note d = keeps_belowD[OF m h]
  obtain r h1 where mh: "m h = (r, h1)" by (cases "m h")
  show "length h \<le> length (snd (sbind m f h)) \<and> (\<forall>a<n. snd (sbind m f h) ! a = h ! a) \<and>
     closed_from n (snd (sbind m f h)) \<and> (\<forall>x. fst (sbind m f h) = Inr x \<longrightarrow> R x)"
  proof (cases r)
    case (Inl e)
    with mh d show ?thesis by (simp add: sbind_def)
  next
    case (Inr x)
    with mh d h have q: "Q x" and h1: "n \<le> length h1" "closed_from n h1"
      and l: "length h \<le> length h1" and s: "\<forall>a<n. h1 ! a = h ! a" by auto
    note e = keeps_belowD[OF f[OF q] h1]
    from mh Inr have "sbind m f h = f x h1" by (simp add: sbind_def)
    with e l s show ?thesis by auto
  qed
qed

lemma closed_from_append:
  "closed_from n h \<Longrightarrow> \<forall>r\<in>refs v. n \<le> r \<Longrightarrow> closed_from n (h @ [v])"
  by (auto simp: closed_from_def nth_append less_Suc_eq)

lemma closed_from_update:
  assumes "closed_from n h" "\<forall>r\<in>refs v. n \<le> r"
  shows "closed_from n (h[a := v])"
  unfolding closed_from_def
proof (intro allI impI ballI)
  fix b r assume b: "n \<le> b \<and> b < length (h[a := v])" and r: "r \<in> refs (h[a := v] ! b)"
  show "n \<le> r"
  proof (cases "b = a")
    case True
    with b r assms(2) show ?thesis by simp
  next
    case False
    with b r assms(1) show ?thesis by (auto simp: closed_from_def)
  qed
qed

lemma keeps_below_alloc:
  "\<forall>r\<in>refs v. n \<le> r \<Longrightarrow> keeps_below n (alloc v) (\<lambda>a. n \<le> a)"
  by (rule keeps_belowI) (auto simp: alloc_def nth_append closed_from_append)

lemma keeps_below_write:
  "n \<le> a \<Longrightarrow> \<forall>r\<in>refs v. n \<le> r \<Longrightarrow> keeps_below n (write_obj a v) (\<lambda>_. True)"
  by (rule keeps_belowI) (auto simp: write_obj_def closed_from_update)

lemma keeps_below_read_dict:
  "keeps_below n (read_dict a) (\<lambda>d. n \<le> a \<longrightarrow> (\<forall>r\<in>set_option (buttons d). n \<le> r))"
proof (rule keeps_belowI)
  fix h assume h: "n \<le> length h" "closed_from n h"
  have s: "snd (read_dict a h) = h" by (auto simp: read_dict_def split: obj.splits)
  have "\<And>d. fst (read_dict a h) = Inr d \<Longrightarrow> a < length h \<and> h ! a = Dict d"
    by (auto simp: read_dict_def split: obj.splits if_splits)
  with h(2) have "\<forall>d. fst (read_dict a h) = Inr d \<longrightarrow>
     n \<le> a \<longrightarrow> (\<forall>r\<in>set_option (buttons d). n \<le> r)"
    unfolding closed_from_def by (metis refs.simps(1))
  with s h show "length h \<le> length (snd (read_dict a h)) \<and>
         (\<forall>b<n. snd (read_dict a h) ! b = h ! b) \<and>
         closed_from n (snd (read_dict a h)) \<and>
         (\<forall>x. fst (read_dict a h) = Inr x \<longrightarrow>
              n \<le> a \<longrightarrow> (\<forall>r\<in>set_option (buttons x). n \<le> r))" by simp
qed

lemma keeps_below_read_list:
  "keeps_below n (read_list a) (\<lambda>as. n \<le> a \<longrightarrow> (\<forall>r\<in>set as. n \<le> r))"
proof (rule keeps_belowI)
  fix h assume h: "n \<le> length h" "closed_from n h"
  have s: "snd (read_list a h) = h" by (auto simp: read_list_def split: obj.splits)
  have "\<And>d. fst (read_list a h) = Inr d \<Longrightarrow> a < length h \<and> h ! a = ListObj d"
    by (auto simp: read_list_def split: obj.splits if_splits)
  with h(2) have "\<forall>d. fst (read_list a h) = Inr d \<longrightarrow>
     n \<le> a \<longrightarrow> (\<forall>r\<in>set d. n \<le> r)"
    unfolding closed_from_def by (metis refs.simps(2))
  with s h show "length h \<le> length (snd (read_list a h)) \<and>
         (\<forall>b<n. snd (read_list a h) ! b = h ! b) \<and>
         closed_from n (snd (read_list a h)) \<and>
         (\<forall>x. fst (read_list a h) = Inr x \<longrightarrow>
              n \<le> a \<longrightarrow> (\<forall>r\<in>set x. n \<le> r))" by simp
qed

lemma keeps_below_read_button: "keeps_below n (read_button a) (\<lambda>_. True)"
  by (rule keeps_belowI) (auto simp: read_button_def split: obj.splits)

lemma keeps_below_for_each:
  "(\<And>a. a \<in> set as \<Longrightarrow> keeps_below n (f a) (\<lambda>_. True)) \<Longrightarrow>
     keeps_below n (for_each f as) (\<lambda>_. True)"
proof (induction as)
  case Nil
  then show ?case by (simp add: keeps_below_sreturn)
next
  case (Cons a as)
  show ?case
    unfolding for_each.simps
    by (rule keeps_below_sbind[where Q = "\<lambda>_. True"]) (simp_all add: Cons)
qed

subsection \<open>The deep copy allocates and writes nothing else\<close>

lemma memo_above_empty: "memo_above n Map.empty"
  by (simp add: memo_above_def)

lemma memo_above_upd: "memo_above n m \<Longrightarrow> n \<le> a' \<Longrightarrow> memo_above n (m(a \<mapsto> a'))"
  by (simp add: memo_above_def)

lemma memo_aboveD: "memo_above n m \<Longrightarrow> m a = Some a' \<Longrightarrow> n \<le> a'"
  by (simp add: memo_above_def)

lemma keeps_below_copy_button:
  assumes "memo_above n m"
  shows "keeps_below n (copy_button a m) (\<lambda>r. n \<le> fst r \<and> memo_above n (snd r))"
proof (cases "m a")
  case None
  show ?thesis
    unfolding copy_button_def None option.case
    apply (rule keeps_below_sbind[OF keeps_below_read_button])
    apply (rule keeps_below_sbind[OF keeps_below_alloc])
     apply simp
    apply (rule keeps_below_sreturn)
    apply (simp add: memo_above_upd assms)
    done
next
  case (Some a')
  with assms show ?thesis
    by (auto simp: copy_button_def intro!: keeps_below_sreturn dest: memo_aboveD)
qed

lemma keeps_below_copy_each:
  assumes f: "\<And>a m. memo_above n m \<Longrightarrow>
     keeps_below n (f a m) (\<lambda>r. n \<le> fst r \<and> memo_above n (snd r))"
    and m: "memo_above n m"
  shows "keeps_below n (copy_each f as m)
     (\<lambda>rs. (\<forall>a\<in>set (fst rs). n \<le> a) \<and> memo_above n (snd rs))"
  using m
proof (induction as arbitrary: m)
  case Nil
  then show ?case by (simp add: keeps_below_sreturn)
next
  case (Cons a as)
  show ?case
    unfolding copy_each.simps
    apply (rule keeps_below_sbind[OF f[OF Cons.prems]])
    apply (rule keeps_below_sbind[OF Cons.IH])
     apply simp
    apply (rule keeps_below_sreturn)
    apply simp
    done
qed

lemma keeps_below_copy_list:
  assumes f: "\<And>a m. memo_above n m \<Longrightarrow>
     keeps_below n (f a m) (\<lambda>r. n \<le> fst r \<and> memo_above n (snd r))"
    and m: "memo_above n m"
  shows "keeps_below n (copy_list f a m) (\<lambda>r. n \<le> fst r \<and> memo_above n (snd r))"
proof (cases "m a")
  case None
  show ?thesis
    unfolding copy_list_def None option.case
    apply (rule keeps_below_sbind[OF keeps_below_read_list])
    apply (rule keeps_below_sbind[OF keeps_below_copy_each[of n f, OF f m]])
     apply assumption
    apply (rule keeps_below_sbind[OF keeps_below_alloc])
     apply simp
    apply (rule keeps_below_sreturn)
    apply (simp add: memo_above_upd)
    done
next
  case (Some a')
  with m show ?thesis
    by (auto simp: copy_list_def intro!: keeps_below_sreturn dest: memo_aboveD)
qed

lemma keeps_below_copy_dict:
  assumes m: "memo_above n m"
  shows "keeps_below n (copy_dict a m) (\<lambda>r. n \<le> fst r \<and> memo_above n (snd r))"
proof (cases "m a")
  case None
  show ?thesis
    unfolding copy_dict_def None option.case
  proof (rule keeps_below_sbind[OF keeps_below_read_dict])
    fix d
    show "keeps_below n
          (case buttons d of
           None \<Rightarrow> sbind (alloc (Dict d)) (\<lambda>a'. sreturn (a', m(a \<mapsto> a')))
           | Some l \<Rightarrow>
               sbind (copy_list copy_button l m)
                (\<lambda>r. sbind (alloc (Dict (d\<lparr>buttons := Some (fst r)\<rparr>)))
                      (\<lambda>a'. sreturn (a', (snd r)(a \<mapsto> a')))))
          (\<lambda>r. n \<le> fst r \<and> memo_above n (snd r))"
    proof (cases "buttons d")
      case None
      show ?thesis unfolding None option.case
        apply (rule keeps_below_sbind[OF keeps_below_alloc])
         apply (simp add: None)
        apply (rule keeps_below_sreturn)
        apply (simp add: memo_above_upd m)
        done
    next
      case (Some l)
      show ?thesis unfolding Some option.case
        apply (rule keeps_below_sbind[OF keeps_below_copy_list[of n copy_button, OF keeps_below_copy_button m]])
         apply assumption
        apply (rule keeps_below_sbind[OF keeps_below_alloc])
         apply simp
        apply (rule keeps_below_sreturn)
        apply (simp add: memo_above_upd)
        done
    qed
  qed
next
  case (Some a')
  with m show ?thesis
    by (auto simp: copy_dict_def intro!: keeps_below_sreturn dest: memo_aboveD)
qed

lemma keeps_below_deepcopy: "keeps_below n (deepcopy a) (\<lambda>a'. n \<le> a')"
  unfolding deepcopy_def
  apply (rule keeps_below_sbind[OF keeps_below_copy_list[of n copy_dict, OF keeps_below_copy_dict memo_above_empty]])
   apply assumption
  apply (rule keeps_below_sreturn)
  apply simp
  done

subsection \<open>The loop writes into the copy\<close>

lemma render_status_buttons:
  "render_status kw d = Inr d' \<Longrightarrow> buttons d' = buttons d"
  by (auto simp: render_status_def ebind_def split: option.splits if_splits sum.splits)

lemma render_text_buttons:
  "render_text tpl kw d = Inr d' \<Longrightarrow> buttons d' = buttons d"
  by (auto simp: render_text_def ebind_def split: option.splits if_splits sum.splits)

text \<open>A step that reads the dict at an address and writes one with the same buttons back.\<close>

lemma keeps_below_rewrite_dict:
  assumes "n \<le> a" and "\<And>d d'. g d = Inr d' \<Longrightarrow> buttons d' = buttons d"
  shows "keeps_below n (sbind (read_dict a) (\<lambda>d. sbind (lift (g d)) (\<lambda>d'. write_obj a (Dict d'))))
     (\<lambda>_. True)"
  apply (rule keeps_below_sbind[OF keeps_below_read_dict])
  apply (rule keeps_below_sbind[where Q = "\<lambda>d'. \<forall>r\<in>set_option (buttons d'). n \<le> r"])
   apply (rule keeps_below_lift)
   apply (simp add: assms)
  apply (rule keeps_below_write)
   apply (simp_all add: assms)
  done

lemma keeps_below_render_key_at:
  assumes "n \<le> a" and "\<And>d v. buttons (upd d v) = buttons d"
  shows "keeps_below n (sbind (read_dict a) (\<lambda>d. sbind (lift (render_key tpl kw (sel d)))
            (\<lambda>v. write_obj a (Dict (upd d v))))) (\<lambda>_. True)"
  apply (rule keeps_below_sbind[OF keeps_below_read_dict])
  apply (rule keeps_below_sbind[where Q = "\<lambda>_. True"])
   apply (rule keeps_below_lift)
   apply simp
  apply (rule keeps_below_write)
   apply (simp_all add: assms)
  done

lemma keeps_below_render_header_at:
  "n \<le> a \<Longrightarrow> keeps_below n (render_header_at tpl kw a) (\<lambda>_. True)"
  unfolding render_header_at_def
  by (rule keeps_below_render_key_at[where upd = "\<lambda>d v. d\<lparr>header := v\<rparr>"]) simp_all

lemma keeps_below_render_title_at:
  "n \<le> a \<Longrightarrow> keeps_below n (render_title_at tpl kw a) (\<lambda>_. True)"
  unfolding render_title_at_def
  by (rule keeps_below_render_key_at[where upd = "\<lambda>d v. d\<lparr>title := v\<rparr>"]) simp_all

lemma keeps_below_render_datetime_at:
  "n \<le> a \<Longrightarrow> keeps_below n (render_datetime_at tpl kw a) (\<lambda>_. True)"
  unfolding render_datetime_at_def
  by (rule keeps_below_render_key_at[where upd = "\<lambda>d v. d\<lparr>datetime := v\<rparr>"]) simp_all

lemma keeps_below_render_context_at:
  "n \<le> a \<Longrightarrow> keeps_below n (render_context_at tpl kw a) (\<lambda>_. True)"
  unfolding render_context_at_def
  by (rule keeps_below_render_key_at[where upd = "\<lambda>d v. d\<lparr>context := v\<rparr>"]) simp_all

lemma keeps_below_render_text_at:
  "n \<le> a \<Longrightarrow> keeps_below n (render_text_at tpl kw a) (\<lambda>_. True)"
  unfolding render_text_at_def
  by (rule keeps_below_rewrite_dict) (simp_all add: render_text_buttons)

lemma keeps_below_render_status_at:
  "n \<le> a \<Longrightarrow> keeps_below n (render_status_at kw a) (\<lambda>_. True)"
  unfolding render_status_at_def
  by (rule keeps_below_rewrite_dict) (simp_all add: render_status_buttons)

lemma keeps_below_render_title_link_at:
  assumes "n \<le> a"
  shows "keeps_below n (render_title_link_at tpl kw a) (\<lambda>_. True)"
  unfolding render_title_link_at_def
proof (rule keeps_below_sbind[OF keeps_below_read_dict])
  fix d :: "addr block" assume d: "n \<le> a \<longrightarrow> (\<forall>r\<in>set_option (buttons d). n \<le> r)"
  show "keeps_below n
          (case title_link d of None \<Rightarrow> sreturn True
           | Some s \<Rightarrow>
               if s \<noteq> []
               then sbind (lift (tpl s kw))
                     (\<lambda>r. sbind (write_obj a (Dict (d\<lparr>title_link := Some r\<rparr>)))
                           (\<lambda>_. if r = ''None'' then sreturn False
                                else if r = [] then sreturn False else sreturn True))
               else sreturn True)
          (\<lambda>_. True)"
  proof (cases "title_link d")
    case None
    then show ?thesis by (simp add: keeps_below_sreturn)
  next
    case (Some s)
    show ?thesis
    proof (cases "s = []")
      case True
      with Some show ?thesis by (simp add: keeps_below_sreturn)
    next
      case False
      have "keeps_below n (sbind (lift (tpl s kw))
                     (\<lambda>r. sbind (write_obj a (Dict (d\<lparr>title_link := Some r\<rparr>)))
                           (\<lambda>_. if r = ''None'' then sreturn False
                                else if r = [] then sreturn False else sreturn True)))
             (\<lambda>_. True)"
        apply (rule keeps_below_sbind[where Q = "\<lambda>_. True"])
         apply (rule keeps_below_lift)
         apply simp
        apply (rule keeps_below_sbind[where Q = "\<lambda>_. True"])
         apply (rule keeps_below_write)
        using assms d apply simp_all
        apply (simp add: keeps_below_sreturn)
        done
      with Some False show ?thesis by simp
    qed
  qed
qed

lemma keeps_below_render_button_at:
  "n \<le> a \<Longrightarrow> keeps_below n (render_button_at tpl kw a) (\<lambda>_. True)"
  unfolding render_button_at_def
  apply (rule keeps_below_sbind[OF keeps_below_read_button])
  apply (rule keeps_below_sbind[where Q = "\<lambda>_. True"])
   apply (rule keeps_below_lift)
   apply simp
  apply (rule keeps_below_write)
   apply simp_all
  done

lemma keeps_below_render_buttons_at:
  assumes "n \<le> a"
  shows "keeps_below n (render_buttons_at tpl kw a) (\<lambda>_. True)"
  unfolding render_buttons_at_def
proof (rule keeps_below_sbind[OF keeps_below_read_dict])
  fix d :: "addr block" assume d: "n \<le> a \<longrightarrow> (\<forall>r\<in>set_option (buttons d). n \<le> r)"
  show "keeps_below n
          (case buttons d of None \<Rightarrow> sreturn ()
           | Some l \<Rightarrow>
               sbind (read_list l)
                (\<lambda>bs. if bs \<noteq> [] then for_each (render_button_at tpl kw) bs else sreturn ()))
          (\<lambda>_. True)"
  proof (cases "buttons d")
    case None
    then show ?thesis by (simp add: keeps_below_sreturn)
  next
    case (Some l)
    with d assms have l: "n \<le> l" by simp
    have "keeps_below n (sbind (read_list l)
                (\<lambda>bs. if bs \<noteq> [] then for_each (render_button_at tpl kw) bs else sreturn ()))
          (\<lambda>_. True)"
    proof (rule keeps_below_sbind[OF keeps_below_read_list])
      fix bs assume "n \<le> l \<longrightarrow> (\<forall>r\<in>set bs. n \<le> r)"
      with l have "\<forall>r\<in>set bs. n \<le> r" by simp
      then have "keeps_below n (for_each (render_button_at tpl kw) bs) (\<lambda>_. True)"
        by (auto intro: keeps_below_for_each keeps_below_render_button_at)
      then show "keeps_below n
           (if bs \<noteq> [] then for_each (render_button_at tpl kw) bs else sreturn ()) (\<lambda>_. True)"
        by (simp add: keeps_below_sreturn)
    qed
    with Some show ?thesis by simp
  qed
qed

lemma keeps_below_append_at:
  assumes "n \<le> data" "n \<le> a"
  shows "keeps_below n (append_at data a) (\<lambda>_. True)"
  unfolding append_at_def
proof (rule keeps_below_sbind[OF keeps_below_read_list])
  fix xs assume "n \<le> data \<longrightarrow> (\<forall>r\<in>set xs. n \<le> r)"
  with assms show "keeps_below n (write_obj data (ListObj (xs @ [a]))) (\<lambda>_. True)"
    by (auto intro!: keeps_below_write)
qed

lemma keeps_below_render_head_at:
  assumes "n \<le> a"
  shows "keeps_below n (render_head_at tpl kw a) (\<lambda>_. True)"
  unfolding render_head_at_def
  apply (rule keeps_below_sbind[OF keeps_below_render_header_at[OF assms]])
  apply (rule keeps_below_sbind[OF keeps_below_render_title_at[OF assms]])
  apply (rule keeps_below_sbind[OF keeps_below_render_title_link_at[OF assms]])
  apply (simp add: keeps_below_sreturn)
  apply (rule impI)
  apply (rule keeps_below_sbind[OF keeps_below_render_text_at[OF assms]])
  apply (simp add: keeps_below_sreturn)
  done

lemma keeps_below_render_tail_at:
  assumes "n \<le> a"
  shows "keeps_below n (render_tail_at tpl kw a) (\<lambda>_. True)"
  unfolding render_tail_at_def
  apply (rule keeps_below_sbind[OF keeps_below_render_status_at[OF assms]])
  apply (rule keeps_below_sbind[OF keeps_below_render_datetime_at[OF assms]])
  apply (rule keeps_below_render_context_at[OF assms])
  done

lemma keeps_below_render_block_at:
  assumes "n \<le> data" "n \<le> a"
  shows "keeps_below n (render_block_at tpl kw data a) (\<lambda>_. True)"
  unfolding render_block_at_def
  apply (rule keeps_below_sbind[OF keeps_below_render_head_at[OF assms(2)]])
  apply (simp add: keeps_below_sreturn)
  apply (rule impI)
  apply (rule keeps_below_sbind[OF keeps_below_render_buttons_at[OF assms(2)]])
  apply (rule keeps_below_sbind[OF keeps_below_render_tail_at[OF assms(2)]])
  apply (rule keeps_below_append_at[OF assms])
  done

lemma keeps_below_render_message_template_store:
  "keeps_below n (render_message_template_store tpl mt kw) (\<lambda>data. n \<le> data)"
  unfolding render_message_template_store_def
proof (rule keeps_below_sbind[OF keeps_below_alloc])
  show "\<forall>r\<in>refs (ListObj []). n \<le> r" by simp
next
  fix data assume data: "n \<le> data"
  show "keeps_below n
            (sbind (deepcopy mt)
              (\<lambda>new_copy.
                  sbind (read_list new_copy)
                   (\<lambda>ds. sbind (for_each (render_block_at tpl kw data) ds)
                          (\<lambda>_. sreturn data))))
            ((\<le>) n)"
  proof (rule keeps_below_sbind[OF keeps_below_deepcopy])
    fix new_copy assume nc: "n \<le> new_copy"
    show "keeps_below n
            (sbind (read_list new_copy)
              (\<lambda>ds. sbind (for_each (render_block_at tpl kw data) ds) (\<lambda>_. sreturn data)))
            ((\<le>) n)"
    proof (rule keeps_below_sbind[OF keeps_below_read_list])
      fix ds assume "n \<le> new_copy \<longrightarrow> (\<forall>r\<in>set ds. n \<le> r)"
      with nc have ds: "\<forall>r\<in>set ds. n \<le> r" by simp
      show "keeps_below n
             (sbind (for_each (render_block_at tpl kw data) ds) (\<lambda>_. sreturn data)) ((\<le>) n)"
        apply (rule keeps_below_sbind[where Q = "\<lambda>_. True"])
         apply (rule keeps_below_for_each)
         apply (rule keeps_below_render_block_at[OF data])
        using ds apply simp
        apply (rule keeps_below_sreturn)
        apply (rule data)
        done
    qed
  qed
qed

lemmas store_defs =
  render_message_template_store_def render_block_at_def render_head_at_def
  render_tail_at_def render_header_at_def
  render_title_at_def render_title_link_at_def render_text_at_def render_buttons_at_def
  render_button_at_def render_status_at_def render_datetime_at_def render_context_at_def
  append_at_def deepcopy_def copy_list_def copy_dict_def copy_button_def
  sbind_def sreturn_def lift_def alloc_def write_obj_def read_dict_def read_list_def
  read_button_def example_store_def empty_dict_def join_button_def


section \<open>The store and the values\<close>

text \<open>
  The function on the store computes what \<open>render_values\<close> computes on the values,
  for a template in which no object occurs twice. The proof follows the code: each step
  of the loop body against its counterpart on values, the loop over the buttons, the
  loop over the blocks, and the deep copy, which gives fresh objects with the same
  values.
\<close>

lemma those_eq_Some_iff: "those xs = Some ys \<longleftrightarrow> xs = map Some ys"
proof (induction xs arbitrary: ys)
  case Nil
  then show ?case by auto
next
  case (Cons x xs)
  then show ?case by (cases x; cases ys) (auto split: option.splits)
qed

lemma with_buttons_sel [simp]:
  "header (with_buttons d bs) = header d" "title (with_buttons d bs) = title d"
  "title_link (with_buttons d bs) = title_link d" "text (with_buttons d bs) = text d"
  "buttons (with_buttons d bs) = bs" "status_mapping (with_buttons d bs) = status_mapping d"
  "datetime (with_buttons d bs) = datetime d" "context (with_buttons d bs) = context d"
  "block.more (with_buttons d bs) = block.more d"
  by (simp_all add: with_buttons_def)

lemma with_buttons_upd [simp]:
  "with_buttons (d\<lparr>header := v\<rparr>) bs = (with_buttons d bs)\<lparr>header := v\<rparr>"
  "with_buttons (d\<lparr>title := v\<rparr>) bs = (with_buttons d bs)\<lparr>title := v\<rparr>"
  "with_buttons (d\<lparr>title_link := v\<rparr>) bs = (with_buttons d bs)\<lparr>title_link := v\<rparr>"
  "with_buttons (d\<lparr>text := v\<rparr>) bs = (with_buttons d bs)\<lparr>text := v\<rparr>"
  "with_buttons (d\<lparr>datetime := v\<rparr>) bs = (with_buttons d bs)\<lparr>datetime := v\<rparr>"
  "with_buttons (d\<lparr>context := v\<rparr>) bs = (with_buttons d bs)\<lparr>context := v\<rparr>"
  by (simp_all add: with_buttons_def)

text \<open>The steps on the store, at a cell that holds a dict.\<close>

lemma read_dict_at: "dict_at h a = Some d \<Longrightarrow> read_dict a h = (Inr d, h)"
  by (auto simp: dict_at_def read_dict_def split: if_splits obj.splits)

lemma read_list_at: "list_at h a = Some d \<Longrightarrow> read_list a h = (Inr d, h)"
  by (auto simp: list_at_def read_list_def split: if_splits obj.splits)

lemma read_button_at: "button_at h a = Some d \<Longrightarrow> read_button a h = (Inr d, h)"
  by (auto simp: button_at_def read_button_def split: if_splits obj.splits)

lemma dict_at_update:
  "a < length h \<Longrightarrow> dict_at (h[a := v]) b =
     (if b = a then (case v of Dict d \<Rightarrow> Some d | _ \<Rightarrow> None) else dict_at h b)"
  by (auto simp: dict_at_def)

lemma list_at_update:
  "a < length h \<Longrightarrow> list_at (h[a := v]) b =
     (if b = a then (case v of ListObj d \<Rightarrow> Some d | _ \<Rightarrow> None) else list_at h b)"
  by (auto simp: list_at_def)

lemma button_at_update:
  "a < length h \<Longrightarrow> button_at (h[a := v]) b =
     (if b = a then (case v of ButtonObj d \<Rightarrow> Some d | _ \<Rightarrow> None) else button_at h b)"
  by (auto simp: button_at_def)

lemma dict_at_length: "dict_at h a = Some d \<Longrightarrow> a < length h"
  by (auto simp: dict_at_def split: if_splits)

lemma list_at_length: "list_at h a = Some d \<Longrightarrow> a < length h"
  by (auto simp: list_at_def split: if_splits)

lemma button_at_length: "button_at h a = Some d \<Longrightarrow> a < length h"
  by (auto simp: button_at_def split: if_splits)

lemma cells_disjoint:
  "dict_at h a = Some d \<Longrightarrow> list_at h a = None \<and> button_at h a = None"
  "list_at h a = Some l \<Longrightarrow> dict_at h a = None \<and> button_at h a = None"
  "button_at h a = Some b \<Longrightarrow> dict_at h a = None \<and> list_at h a = None"
  by (auto simp: dict_at_def list_at_def button_at_def split: if_splits obj.splits)


lemma fst_sbind:
  "fst (sbind m f h) = (case fst (m h) of Inl e \<Rightarrow> Inl e | Inr x \<Rightarrow> fst (f x (snd (m h))))"
  by (simp add: sbind_def split: prod.splits sum.splits)

lemma snd_sbind:
  "snd (sbind m f h) = (case fst (m h) of Inl e \<Rightarrow> snd (m h) | Inr x \<Rightarrow> snd (f x (snd (m h))))"
  by (simp add: sbind_def split: prod.splits sum.splits)

lemma sbind_Inr: "m h = (Inr x, h1) \<Longrightarrow> sbind m f h = f x h1"
  by (simp add: sbind_def)

lemma sbind_Inl: "m h = (Inl e, h1) \<Longrightarrow> sbind m f h = (Inl e, h1)"
  by (simp add: sbind_def)

text \<open>The steps that do not touch the buttons commute with a change of the buttons.\<close>

lemma render_title_link_with_buttons:
  "render_title_link tpl kw (with_buttons d B) =
     map_sum id (map_option (\<lambda>d1. with_buttons d1 B)) (render_title_link tpl kw d)"
  by (auto simp: render_title_link_def ebind_def split: option.splits sum.splits)

lemma render_text_with_buttons:
  "render_text tpl kw (with_buttons d B) =
     map_sum id (\<lambda>d1. with_buttons d1 B) (render_text tpl kw d)"
  by (auto simp: render_text_def ebind_def split: option.splits sum.splits)

lemma render_status_with_buttons:
  "render_status kw (with_buttons d B) =
     map_sum id (\<lambda>d1. with_buttons d1 B) (render_status kw d)"
  by (auto simp: render_status_def ebind_def split: option.splits sum.splits)

lemma render_head_with_buttons:
  "render_head tpl kw (with_buttons d B) =
     map_sum id (map_option (\<lambda>d1. with_buttons d1 B)) (render_head tpl kw d)"
proof -
  have u: "\<And>h t. (with_buttons d B)\<lparr>header := h, title := t\<rparr> =
      with_buttons (d\<lparr>header := h, title := t\<rparr>) B" by simp
  show ?thesis
    unfolding render_head_def
    by (auto simp: u ebind_def render_title_link_with_buttons render_text_with_buttons
        simp del: with_buttons_upd split: sum.splits option.splits)
qed

lemma render_tail_with_buttons:
  "render_tail tpl kw (with_buttons d B) =
     map_sum id (\<lambda>d1. with_buttons d1 B) (render_tail tpl kw d)"
  unfolding render_tail_def
  by (auto simp: ebind_def render_status_with_buttons split: sum.splits)

text \<open>The steps on the store at the address of a dict.\<close>

lemma render_key_at:
  assumes "dict_at h a = Some d"
  shows "sbind (read_dict a) (\<lambda>d. sbind (lift (render_key tpl kw (sel d)))
            (\<lambda>v. write_obj a (Dict (upd d v)))) h =
         (case render_key tpl kw (sel d) of
            Inl e \<Rightarrow> (Inl e, h)
          | Inr v \<Rightarrow> (Inr (), h[a := Dict (upd d v)]))"
  using assms
  by (simp add: sbind_def read_dict_at lift_def write_obj_def split: sum.splits)

lemma render_header_at_eq:
  "dict_at h a = Some d \<Longrightarrow> render_header_at tpl kw a h =
     (case render_key tpl kw (header d) of
        Inl e \<Rightarrow> (Inl e, h) | Inr v \<Rightarrow> (Inr (), h[a := Dict (d\<lparr>header := v\<rparr>)]))"
  unfolding render_header_at_def
  by (rule render_key_at[where upd = "\<lambda>d v. d\<lparr>header := v\<rparr>"])

lemma render_title_at_eq:
  "dict_at h a = Some d \<Longrightarrow> render_title_at tpl kw a h =
     (case render_key tpl kw (title d) of
        Inl e \<Rightarrow> (Inl e, h) | Inr v \<Rightarrow> (Inr (), h[a := Dict (d\<lparr>title := v\<rparr>)]))"
  unfolding render_title_at_def
  by (rule render_key_at[where upd = "\<lambda>d v. d\<lparr>title := v\<rparr>"])

lemma render_datetime_at_eq:
  "dict_at h a = Some d \<Longrightarrow> render_datetime_at tpl kw a h =
     (case render_key tpl kw (datetime d) of
        Inl e \<Rightarrow> (Inl e, h) | Inr v \<Rightarrow> (Inr (), h[a := Dict (d\<lparr>datetime := v\<rparr>)]))"
  unfolding render_datetime_at_def
  by (rule render_key_at[where upd = "\<lambda>d v. d\<lparr>datetime := v\<rparr>"])

lemma render_context_at_eq:
  "dict_at h a = Some d \<Longrightarrow> render_context_at tpl kw a h =
     (case render_key tpl kw (context d) of
        Inl e \<Rightarrow> (Inl e, h) | Inr v \<Rightarrow> (Inr (), h[a := Dict (d\<lparr>context := v\<rparr>)]))"
  unfolding render_context_at_def
  by (rule render_key_at[where upd = "\<lambda>d v. d\<lparr>context := v\<rparr>"])

lemma render_text_at_eq:
  "dict_at h a = Some d \<Longrightarrow> render_text_at tpl kw a h =
     (case render_text tpl kw d of
        Inl e \<Rightarrow> (Inl e, h) | Inr d' \<Rightarrow> (Inr (), h[a := Dict d']))"
  by (simp add: render_text_at_def sbind_def read_dict_at lift_def write_obj_def
      split: sum.splits)

lemma render_status_at_eq:
  "dict_at h a = Some d \<Longrightarrow> render_status_at kw a h =
     (case render_status kw d of
        Inl e \<Rightarrow> (Inl e, h) | Inr d' \<Rightarrow> (Inr (), h[a := Dict d']))"
  by (simp add: render_status_at_def sbind_def read_dict_at lift_def write_obj_def
      split: sum.splits)

lemma render_title_link_at_eq:
  "dict_at h a = Some d \<Longrightarrow> render_title_link_at tpl kw a h =
     (case title_link d of
        None \<Rightarrow> (Inr True, h)
      | Some s \<Rightarrow>
          if s \<noteq> [] then
            (case tpl s kw of
               Inl e \<Rightarrow> (Inl e, h)
             | Inr r \<Rightarrow> (Inr (r \<noteq> ''None'' \<and> r \<noteq> []), h[a := Dict (d\<lparr>title_link := Some r\<rparr>)]))
          else (Inr True, h))"
  by (simp add: render_title_link_at_def sbind_def read_dict_at lift_def write_obj_def
      sreturn_def split: sum.splits option.splits)

lemma dict_at_write: "a < length h \<Longrightarrow> dict_at (h[a := Dict d]) a = Some d"
  by (simp add: dict_at_update)

text \<open>The head of the loop body on the store, by the head on the dict.\<close>

lemma render_head_at_eq:
  assumes "dict_at h a = Some d"
  shows "fst (render_head_at tpl kw a h) = map_sum id (\<lambda>r. r \<noteq> None) (render_head tpl kw d)"
    and "render_head tpl kw d = Inr (Some d1) \<Longrightarrow> snd (render_head_at tpl kw a h) = h[a := Dict d1]"
    and "render_head tpl kw d = Inr None \<Longrightarrow>
           \<exists>d'. snd (render_head_at tpl kw a h) = h[a := Dict d'] \<and> buttons d' = buttons d"
proof -
  from assms have a: "a < length h" by (rule dict_at_length)
  have d0: "h[a := Dict d] = h" using assms a
    by (auto simp: dict_at_def list_update_same_conv split: obj.splits)
  note steps = render_header_at_eq render_title_at_eq render_title_link_at_eq render_text_at_eq
  show "fst (render_head_at tpl kw a h) = map_sum id (\<lambda>r. r \<noteq> None) (render_head tpl kw d)"
    unfolding render_head_at_def render_head_def
    using assms a
    by (auto simp: sbind_def steps dict_at_write sreturn_def ebind_def render_title_link_def
        split: sum.splits option.splits prod.splits)
  show "render_head tpl kw d = Inr (Some d1) \<Longrightarrow> snd (render_head_at tpl kw a h) = h[a := Dict d1]"
    unfolding render_head_at_def render_head_def
    using assms a d0
    by (auto simp: sbind_def steps dict_at_write sreturn_def ebind_def render_title_link_def
        render_text_def
        split: sum.splits option.splits prod.splits if_splits)
  show "render_head tpl kw d = Inr None \<Longrightarrow>
           \<exists>d'. snd (render_head_at tpl kw a h) = h[a := Dict d'] \<and> buttons d' = buttons d"
    unfolding render_head_at_def render_head_def
    using assms a
    by (auto simp: sbind_def steps dict_at_write sreturn_def ebind_def render_title_link_def
        render_text_def
        split: sum.splits option.splits prod.splits if_splits)
qed


lemma render_tail_at_eq:
  assumes "dict_at h a = Some d"
  shows "fst (render_tail_at tpl kw a h) = map_sum id (\<lambda>_. ()) (render_tail tpl kw d)"
    and "render_tail tpl kw d = Inr d' \<Longrightarrow> snd (render_tail_at tpl kw a h) = h[a := Dict d']"
proof -
  from assms have a: "a < length h" by (rule dict_at_length)
  note steps = render_status_at_eq render_datetime_at_eq render_context_at_eq
  show "fst (render_tail_at tpl kw a h) = map_sum id (\<lambda>_. ()) (render_tail tpl kw d)"
    unfolding render_tail_at_def render_tail_def
    using assms a
    by (auto simp: sbind_def steps dict_at_write ebind_def
        split: sum.splits option.splits prod.splits)
  show "render_tail tpl kw d = Inr d' \<Longrightarrow> snd (render_tail_at tpl kw a h) = h[a := Dict d']"
    unfolding render_tail_at_def render_tail_def
    using assms a
    by (auto simp: sbind_def steps dict_at_write ebind_def
        split: sum.splits option.splits prod.splits)
qed

lemma render_button_at_eq:
  "button_at h a = Some b \<Longrightarrow> render_button_at tpl kw a h =
     (case render_button tpl kw b of
        Inl e \<Rightarrow> (Inl e, h) | Inr b' \<Rightarrow> (Inr (), h[a := ButtonObj b']))"
  by (simp add: render_button_at_def sbind_def read_button_at lift_def write_obj_def
      split: sum.splits)

lemma map_button_at_update:
  "b \<notin> set bs \<Longrightarrow> b < length h \<Longrightarrow> map (button_at (h[b := v])) bs = map (button_at h) bs"
  by (induction bs) (auto simp: button_at_update)

lemma for_each_buttons:
  assumes "map (button_at h) bts = map Some btns" "distinct bts"
  shows "fst (for_each (render_button_at tpl kw) bts h)
           = map_sum id (\<lambda>_. ()) (render_button_list tpl kw btns)
         \<and> (\<forall>btns'. render_button_list tpl kw btns = Inr btns' \<longrightarrow>
              length (snd (for_each (render_button_at tpl kw) bts h)) = length h \<and>
              map (button_at (snd (for_each (render_button_at tpl kw) bts h))) bts = map Some btns' \<and>
              (\<forall>b. b \<notin> set bts \<longrightarrow> snd (for_each (render_button_at tpl kw) bts h) ! b = h ! b))"
  using assms
proof (induction bts arbitrary: h btns)
  case Nil
  then show ?case by (simp add: sreturn_def)
next
  case (Cons b bs)
  from Cons.prems(1) obtain x xs where btns: "btns = x # xs" and x: "button_at h b = Some x"
    and xs: "map (button_at h) bs = map Some xs" by (cases btns) auto
  from x have bl: "b < length h" by (rule button_at_length)
  from Cons.prems(2) have nb: "b \<notin> set bs" and dbs: "distinct bs" by simp_all
  show ?case
  proof (cases "render_button tpl kw x")
    case (Inl e)
    with x btns show ?thesis
      by (simp add: sbind_def render_button_at_eq ebind_def)
  next
    case (Inr x')
    let ?h1 = "h[b := ButtonObj x']"
    from nb xs bl have xs1: "map (button_at ?h1) bs = map Some xs"
      by (simp add: map_button_at_update)
    note ih = Cons.IH[OF xs1 dbs]
    let ?r = "for_each (render_button_at tpl kw) bs ?h1"
    have e: "for_each (render_button_at tpl kw) (b # bs) h = ?r"
      using x Inr by (simp add: sbind_def render_button_at_eq)
    show ?thesis
    proof (intro conjI allI impI)
      from ih Inr btns show "fst (for_each (render_button_at tpl kw) (b # bs) h)
           = map_sum id (\<lambda>_. ()) (render_button_list tpl kw btns)"
        unfolding e by (auto simp: ebind_def split: sum.splits)
    next
      fix btns' assume r: "render_button_list tpl kw btns = Inr btns'"
      with Inr btns obtain xs' where xs': "render_button_list tpl kw xs = Inr xs'"
        "btns' = x' # xs'" by (auto simp: ebind_def split: sum.splits)
      from ih xs' have l: "length (snd ?r) = length ?h1"
        and m: "map (button_at (snd ?r)) bs = map Some xs'"
        and f: "\<forall>c. c \<notin> set bs \<longrightarrow> snd ?r ! c = ?h1 ! c" by blast+
      from l show "length (snd (for_each (render_button_at tpl kw) (b # bs) h)) = length h"
        unfolding e by simp
      from f nb bl l have "button_at (snd ?r) b = Some x'"
        by (simp add: button_at_def)
      with m xs' show "map (button_at (snd (for_each (render_button_at tpl kw) (b # bs) h))) (b # bs)
           = map Some btns'"
        unfolding e by simp
      fix c assume "c \<notin> set (b # bs)"
      with f show "snd (for_each (render_button_at tpl kw) (b # bs) h) ! c = h ! c"
        unfolding e by simp
    qed
  qed
qed

lemma append_at_eq:
  "list_at h dt = Some xs \<Longrightarrow> append_at dt a h = (Inr (), h[dt := ListObj (xs @ [a])])"
  by (simp add: append_at_def sbind_def read_list_at write_obj_def)


lemma block_at_SomeD:
  assumes "block_at h a = Some v"
  shows "\<exists>d. dict_at h a = Some d \<and>
           (case buttons d of
              None \<Rightarrow> v = with_buttons d None
            | Some l \<Rightarrow> \<exists>bts btns. list_at h l = Some bts \<and>
                 map (button_at h) bts = map Some btns \<and> v = with_buttons d (Some btns))"
  using assms
  by (auto simp: block_at_def buttons_at_def those_eq_Some_iff split: option.splits)

lemma block_atI:
  "dict_at h a = Some d \<Longrightarrow> buttons d = Some l \<Longrightarrow> list_at h l = Some bts \<Longrightarrow>
     map (button_at h) bts = map Some btns \<Longrightarrow> block_at h a = Some (with_buttons d (Some btns))"
  by (simp add: block_at_def buttons_at_def those_eq_Some_iff[THEN iffD2])

lemma block_atI_None:
  "dict_at h a = Some d \<Longrightarrow> buttons d = None \<Longrightarrow> block_at h a = Some (with_buttons d None)"
  by (simp add: block_at_def)

lemma button_cells:
  "map (button_at h) bts = map Some btns \<Longrightarrow> c \<in> set bts \<Longrightarrow> \<exists>b. button_at h c = Some b"
proof (induction bts arbitrary: btns)
  case Nil
  then show ?case by simp
next
  case (Cons x xs)
  then show ?case by (cases btns) auto
qed


lemma render_buttons_at_no_buttons:
  assumes d: "dict_at h a = Some d" and n: "buttons d = None"
  shows "render_buttons_at tpl kw a h = (Inr (), h)"
    and "render_buttons tpl kw (with_buttons d None) = Inr (with_buttons d None)"
  using d n
  by (simp_all add: render_buttons_at_def render_buttons_def sbind_def read_dict_at sreturn_def)

lemma render_buttons_at_run:
  assumes d: "dict_at h a = Some d" and s: "buttons d = Some l" and l: "list_at h l = Some bts"
  shows "render_buttons_at tpl kw a h =
        (if bts \<noteq> [] then for_each (render_button_at tpl kw) bts h else (Inr (), h))"
  using d s l
  by (simp add: render_buttons_at_def sbind_def read_dict_at read_list_at sreturn_def)

lemma render_buttons_value:
  "render_buttons tpl kw (with_buttons d (Some btns)) =
     (if btns \<noteq> [] then
        (case render_button_list tpl kw btns of
           Inl e \<Rightarrow> Inl e
         | Inr btns' \<Rightarrow> Inr (with_buttons d (Some btns')))
      else Inr (with_buttons d (Some btns)))"
  by (simp add: render_buttons_def ebind_def with_buttons_def split: sum.splits)


lemma cell_frame:
  assumes "length h' = length h" "h' ! a = h ! a"
  shows "dict_at h' a = dict_at h a" "list_at h' a = list_at h a" "button_at h' a = button_at h a"
  using assms by (simp_all add: dict_at_def list_at_def button_at_def)

lemma render_buttons_at_some_fst:
  assumes d: "dict_at h a = Some d" and s: "buttons d = Some l" and l: "list_at h l = Some bts"
    and m: "map (button_at h) bts = map Some btns" and db: "distinct bts"
  shows "fst (render_buttons_at tpl kw a h)
           = map_sum id (\<lambda>_. ()) (render_buttons tpl kw (with_buttons d (Some btns)))"
proof (cases "bts = []")
  case True
  with m have "btns = []" by simp
  with True show ?thesis
    unfolding render_buttons_at_run[OF d s l] render_buttons_value by simp
next
  case False
  with m have "btns \<noteq> []" by auto
  with False for_each_buttons[OF m db, of tpl kw] show ?thesis
    unfolding render_buttons_at_run[OF d s l] render_buttons_value
    by (cases "render_button_list tpl kw btns") simp_all
qed

lemma render_buttons_at_some_snd:
  assumes d: "dict_at h a = Some d" and s: "buttons d = Some l" and l: "list_at h l = Some bts"
    and m: "map (button_at h) bts = map Some btns" and db: "distinct bts"
    and r: "render_buttons tpl kw (with_buttons d (Some btns)) = Inr v'"
  shows "length (snd (render_buttons_at tpl kw a h)) = length h"
    and "block_at (snd (render_buttons_at tpl kw a h)) a = Some v'"
    and "dict_at (snd (render_buttons_at tpl kw a h)) a = Some d"
    and "\<forall>b. b \<notin> set bts \<longrightarrow> snd (render_buttons_at tpl kw a h) ! b = h ! b"
proof -
  let ?h' = "snd (render_buttons_at tpl kw a h)"
  have "length ?h' = length h \<and> (\<forall>b. b \<notin> set bts \<longrightarrow> ?h' ! b = h ! b) \<and>
        (\<exists>btns'. map (button_at ?h') bts = map Some btns' \<and> v' = with_buttons d (Some btns'))"
  proof (cases "bts = []")
    case True
    with m have "btns = []" by simp
    with True r show ?thesis
      unfolding render_buttons_at_run[OF d s l] render_buttons_value by auto
  next
    case False
    with m have ne: "btns \<noteq> []" by auto
    with r obtain btns' where b': "render_button_list tpl kw btns = Inr btns'"
      and v': "v' = with_buttons d (Some btns')"
      unfolding render_buttons_value by (cases "render_button_list tpl kw btns") auto
    from for_each_buttons[OF m db, of tpl kw] b'
    have "length (snd (for_each (render_button_at tpl kw) bts h)) = length h"
      "map (button_at (snd (for_each (render_button_at tpl kw) bts h))) bts = map Some btns'"
      "\<forall>b. b \<notin> set bts \<longrightarrow> snd (for_each (render_button_at tpl kw) bts h) ! b = h ! b"
      by blast+
    with False v' show ?thesis
      unfolding render_buttons_at_run[OF d s l] by auto
  qed
  then obtain btns' where len: "length ?h' = length h"
    and fr: "\<forall>b. b \<notin> set bts \<longrightarrow> ?h' ! b = h ! b"
    and m': "map (button_at ?h') bts = map Some btns'" and v': "v' = with_buttons d (Some btns')"
    by blast
  have na: "a \<notin> set bts"
    using button_cells[OF m, of a] cells_disjoint(1)[OF d] by auto
  have nl: "l \<notin> set bts"
    using button_cells[OF m, of l] cells_disjoint(2)[OF l] by auto
  from na fr len d show d': "dict_at ?h' a = Some d"
    using cell_frame(1)[of ?h' h a] by simp
  from nl fr len l have l': "list_at ?h' l = Some bts"
    using cell_frame(2)[of ?h' h l] by simp
  from block_atI[OF d' s l' m'] v' show "block_at ?h' a = Some v'" by simp
  from len show "length ?h' = length h" .
  from fr show "\<forall>b. b \<notin> set bts \<longrightarrow> ?h' ! b = h ! b" .
qed


lemma map_cells_cong:
  assumes "length h' = length h" "\<forall>b\<in>set bts. h' ! b = h ! b"
  shows "map (button_at h') bts = map (button_at h) bts"
proof (rule map_cong[OF refl])
  fix b assume "b \<in> set bts"
  with assms show "button_at h' b = button_at h b"
    using cell_frame(3)[of h' h b] by simp
qed

lemma block_at_cong:
  assumes len: "length h' = length h" and e: "h' ! e = h ! e"
    and ls: "\<forall>l\<in>set (list_addr h e). h' ! l = h ! l"
    and bs: "\<forall>b\<in>set (button_addrs h e). h' ! b = h ! b"
  shows "list_addr h' e = list_addr h e" "button_addrs h' e = button_addrs h e"
    "block_at h' e = block_at h e"
proof -
  from len e have de: "dict_at h' e = dict_at h e" by (rule cell_frame(1))
  then show la: "list_addr h' e = list_addr h e" by (simp add: list_addr_def)
  have ll: "list_at h' l = list_at h l" if "l \<in> set (list_addr h e)" for l
    using that ls len cell_frame(2)[of h' h l] by blast
  show ba: "button_addrs h' e = button_addrs h e"
    unfolding button_addrs_def la
    by (rule arg_cong[where f = concat], rule map_cong[OF refl]) (simp add: ll)
  show "block_at h' e = block_at h e"
  proof (cases "dict_at h e")
    case None
    with de show ?thesis by (simp add: block_at_def)
  next
    case (Some d)
    show ?thesis
    proof (cases "buttons d")
      case None
      with Some de show ?thesis by (simp add: block_at_def)
    next
      case (Some l)
      with \<open>dict_at h e = Some d\<close> have l: "list_addr h e = [l]" by (simp add: list_addr_def)
      then have ll': "list_at h' l = list_at h l" using ll by simp
      have "buttons_at h' l = buttons_at h l"
      proof (cases "list_at h l")
        case None
        with ll' show ?thesis by (simp add: buttons_at_def)
      next
        case (Some bts)
        with l have "button_addrs h e = bts" by (simp add: button_addrs_def)
        with bs len have "map (button_at h') bts = map (button_at h) bts"
          by (intro map_cells_cong) simp_all
        then have "those (map (button_at h') bts) = those (map (button_at h) bts)"
          by (simp only:)
        with Some ll' show ?thesis by (simp add: buttons_at_def)
      qed
      with Some \<open>dict_at h e = Some d\<close> de show ?thesis by (simp add: block_at_def)
    qed
  qed
qed

lemma block_at_dict_update:
  assumes v: "block_at h a = Some v" and d: "dict_at h a = Some d"
    and b: "buttons d1 = buttons d"
  shows "list_addr (h[a := Dict d1]) a = list_addr h a"
    "button_addrs (h[a := Dict d1]) a = button_addrs h a"
    "block_at (h[a := Dict d1]) a = Some (with_buttons d1 (buttons v))"
    "dict_at (h[a := Dict d1]) a = Some d1"
proof -
  let ?h' = "h[a := Dict d1]"
  from d have al: "a < length h" by (rule dict_at_length)
  then show d1: "dict_at ?h' a = Some d1" by (simp add: dict_at_update)
  with d b show la: "list_addr ?h' a = list_addr h a" by (simp add: list_addr_def)
  have ll: "list_at ?h' l = list_at h l" if "l \<in> set (list_addr h a)" for l
  proof -
    from that d have "buttons d = Some l" by (auto simp: list_addr_def split: option.splits)
    with v d have "list_at h l \<noteq> None"
      by (auto simp: block_at_def buttons_at_def split: option.splits)
    with cells_disjoint(1)[OF d] have "l \<noteq> a" by auto
    with al show ?thesis by (simp add: list_at_update)
  qed
  show ba: "button_addrs ?h' a = button_addrs h a"
    unfolding button_addrs_def la
    by (rule arg_cong[where f = concat], rule map_cong[OF refl]) (simp add: ll)
  from block_at_SomeD[OF v] d have c: "case buttons d of
              None \<Rightarrow> v = with_buttons d None
            | Some l \<Rightarrow> \<exists>bts btns. list_at h l = Some bts \<and>
                 map (button_at h) bts = map Some btns \<and> v = with_buttons d (Some btns)"
    by simp
  show "block_at ?h' a = Some (with_buttons d1 (buttons v))"
  proof (cases "buttons d")
    case None
    with c b d1 show ?thesis by (simp add: block_at_def)
  next
    case (Some l)
    with c obtain bts btns where l: "list_at h l = Some bts"
      and m: "map (button_at h) bts = map Some btns" and veq: "v = with_buttons d (Some btns)"
      by auto
    from Some d have "l \<in> set (list_addr h a)" by (simp add: list_addr_def)
    with ll l have l': "list_at ?h' l = Some bts" by simp
    have "a \<notin> set bts" using button_cells[OF m, of a] cells_disjoint(1)[OF d] by auto
    with al have "map (button_at ?h') bts = map (button_at h) bts"
      by (simp add: map_button_at_update)
    with m have m': "map (button_at ?h') bts = map Some btns" by simp
    from Some b have "buttons d1 = Some l" by simp
    from block_atI[OF d1 this l' m'] veq show ?thesis by simp
  qed
qed

lemma render_tail_buttons:
  "render_tail tpl kw d = Inr d' \<Longrightarrow> buttons d' = buttons d"
  by (auto simp: render_tail_def render_status_def ebind_def
      split: sum.splits option.splits if_splits)

lemma render_buttons_at_block:
  assumes v: "block_at h a = Some v" and dist: "distinct (button_addrs h a)"
    and d: "dict_at h a = Some d"
  shows "fst (render_buttons_at tpl kw a h) = map_sum id (\<lambda>_. ()) (render_buttons tpl kw v)"
    and "render_buttons tpl kw v = Inr v' \<Longrightarrow>
           length (snd (render_buttons_at tpl kw a h)) = length h \<and>
           block_at (snd (render_buttons_at tpl kw a h)) a = Some v' \<and>
           dict_at (snd (render_buttons_at tpl kw a h)) a = Some d \<and>
           (\<forall>b. b \<notin> set (button_addrs h a) \<longrightarrow> snd (render_buttons_at tpl kw a h) ! b = h ! b)"
proof -
  from block_at_SomeD[OF v] d have c: "case buttons d of
              None \<Rightarrow> v = with_buttons d None
            | Some l \<Rightarrow> \<exists>bts btns. list_at h l = Some bts \<and>
                 map (button_at h) bts = map Some btns \<and> v = with_buttons d (Some btns)"
    by simp
  have "fst (render_buttons_at tpl kw a h) = map_sum id (\<lambda>_. ()) (render_buttons tpl kw v) \<and>
        (render_buttons tpl kw v = Inr v' \<longrightarrow>
           length (snd (render_buttons_at tpl kw a h)) = length h \<and>
           block_at (snd (render_buttons_at tpl kw a h)) a = Some v' \<and>
           dict_at (snd (render_buttons_at tpl kw a h)) a = Some d \<and>
           (\<forall>b. b \<notin> set (button_addrs h a) \<longrightarrow> snd (render_buttons_at tpl kw a h) ! b = h ! b))"
  proof (cases "buttons d")
    case None
    with c have veq: "v = with_buttons d None" by simp
    from render_buttons_at_no_buttons[OF d None, of tpl kw] veq v d show ?thesis by auto
  next
    case (Some l)
    with c obtain bts btns where l: "list_at h l = Some bts"
      and m: "map (button_at h) bts = map Some btns" and veq: "v = with_buttons d (Some btns)"
      by auto
    from d Some l have ba: "button_addrs h a = bts"
      by (simp add: button_addrs_def list_addr_def)
    with dist have db: "distinct bts" by simp
    from render_buttons_at_some_fst[OF d Some l m db, of tpl kw]
      render_buttons_at_some_snd[OF d Some l m db, of tpl kw v']
    show ?thesis unfolding veq ba by blast
  qed
  then show "fst (render_buttons_at tpl kw a h) = map_sum id (\<lambda>_. ()) (render_buttons tpl kw v)"
    and "render_buttons tpl kw v = Inr v' \<Longrightarrow>
           length (snd (render_buttons_at tpl kw a h)) = length h \<and>
           block_at (snd (render_buttons_at tpl kw a h)) a = Some v' \<and>
           dict_at (snd (render_buttons_at tpl kw a h)) a = Some d \<and>
           (\<forall>b. b \<notin> set (button_addrs h a) \<longrightarrow> snd (render_buttons_at tpl kw a h) ! b = h ! b)"
    by blast+
qed


lemma block_at_with_buttons:
  "block_at h a = Some v \<Longrightarrow> dict_at h a = Some d \<Longrightarrow> v = with_buttons d (buttons v)"
  by (auto simp: block_at_def split: option.splits)

lemma button_addrs_cells:
  assumes "block_at h a = Some v" "b \<in> set (button_addrs h a)"
  shows "\<exists>x. button_at h b = Some x"
proof -
  from block_at_SomeD[OF assms(1)] obtain d where d: "dict_at h a = Some d"
    and c: "case buttons d of
              None \<Rightarrow> v = with_buttons d None
            | Some l \<Rightarrow> \<exists>bts btns. list_at h l = Some bts \<and>
                 map (button_at h) bts = map Some btns \<and> v = with_buttons d (Some btns)"
    by blast
  show ?thesis
  proof (cases "buttons d")
    case None
    with d assms(2) show ?thesis by (simp add: button_addrs_def list_addr_def)
  next
    case (Some l)
    with c obtain bts btns where l: "list_at h l = Some bts"
      and m: "map (button_at h) bts = map Some btns" by auto
    from d Some l assms(2) have "b \<in> set bts" by (simp add: button_addrs_def list_addr_def)
    with m show ?thesis by (rule button_cells)
  qed
qed

lemma list_addr_cells:
  assumes "block_at h a = Some v" "l \<in> set (list_addr h a)"
  shows "\<exists>x. list_at h l = Some x"
  using assms
  by (auto simp: block_at_def buttons_at_def list_addr_def split: option.splits)

lemma pair_eqI: "fst p = a \<Longrightarrow> snd p = b \<Longrightarrow> p = (a, b)"
  by auto


lemma render_block_value:
  assumes "v = with_buttons d B"
  shows "render_block tpl kw v =
     (case render_head tpl kw d of
        Inl e \<Rightarrow> Inl e
      | Inr None \<Rightarrow> Inr None
      | Inr (Some d1) \<Rightarrow>
          (case render_buttons tpl kw (with_buttons d1 B) of
             Inl e \<Rightarrow> Inl e
           | Inr v2 \<Rightarrow>
               (case render_tail tpl kw v2 of Inl e \<Rightarrow> Inl e | Inr v3 \<Rightarrow> Inr (Some v3))))"
  unfolding render_block_def assms render_head_with_buttons
  by (simp add: ebind_def split: sum.splits option.splits)

text \<open>The block is skipped: only its dict is written to.\<close>

lemma render_block_at_skip:
  assumes v: "block_at h a = Some v" and d: "dict_at h a = Some d"
    and dt: "list_at h dt = Some xs"
    and hd: "render_head tpl kw d = Inr None"
  shows "\<exists>d'. render_block_at tpl kw dt a h = (Inr (), h[a := Dict d']) \<and> buttons d' = buttons d"
proof -
  from render_head_at_eq(1)[OF d, of tpl kw] hd
  have f: "fst (render_head_at tpl kw a h) = Inr False" by simp
  from render_head_at_eq(3)[OF d hd] obtain d' where
    s: "snd (render_head_at tpl kw a h) = h[a := Dict d']" and b: "buttons d' = buttons d"
    by blast
  from f s have "render_head_at tpl kw a h = (Inr False, h[a := Dict d'])" by (rule pair_eqI)
  then have "render_block_at tpl kw dt a h = (Inr (), h[a := Dict d'])"
    by (simp add: render_block_at_def sbind_def sreturn_def)
  with b show ?thesis by blast
qed

text \<open>The head raises.\<close>

lemma render_block_at_head_error:
  assumes d: "dict_at h a = Some d" and hd: "render_head tpl kw d = Inl e"
  shows "fst (render_block_at tpl kw dt a h) = Inl e"
proof -
  from render_head_at_eq(1)[OF d, of tpl kw] hd
  have f: "fst (render_head_at tpl kw a h) = Inl e" by simp
  then show ?thesis
    by (simp add: render_block_at_def fst_sbind)
qed


lemma render_block_at_go:
  assumes v: "block_at h a = Some v" and d: "dict_at h a = Some d"
    and dist: "distinct (button_addrs h a)"
    and dt: "list_at h dt = Some xs" and ndt: "dt \<notin> set (list_addr h a)"
    and hd: "render_head tpl kw d = Inr (Some d1)"
  shows "fst (render_block_at tpl kw dt a h) = map_sum id (\<lambda>_. ()) (render_block tpl kw v)"
    and "render_block tpl kw v = Inr r \<Longrightarrow>
          \<exists>v'. r = Some v' \<and>
            length (snd (render_block_at tpl kw dt a h)) = length h \<and>
            (\<forall>b. b \<noteq> a \<and> b \<noteq> dt \<and> b \<notin> set (button_addrs h a) \<longrightarrow>
                 snd (render_block_at tpl kw dt a h) ! b = h ! b) \<and>
            list_at (snd (render_block_at tpl kw dt a h)) dt = Some (xs @ [a]) \<and>
            block_at (snd (render_block_at tpl kw dt a h)) a = Some v' \<and>
            list_addr (snd (render_block_at tpl kw dt a h)) a = list_addr h a \<and>
            button_addrs (snd (render_block_at tpl kw dt a h)) a = button_addrs h a"
proof -
  let ?B = "buttons v"
  let ?h1 = "h[a := Dict d1]"
  let ?v1 = "with_buttons d1 ?B"
  from d have al: "a < length h" by (rule dict_at_length)
  from dt have dtl: "dt < length h" by (rule list_at_length)
  from cells_disjoint(1)[OF d] dt have adt: "a \<noteq> dt" by auto
  have bdt: "dt \<notin> set (button_addrs h a)"
    using button_addrs_cells[OF v, of dt] cells_disjoint(2)[OF dt] by auto
  have ba: "a \<notin> set (button_addrs h a)"
    using button_addrs_cells[OF v, of a] cells_disjoint(1)[OF d] by auto
  from block_at_with_buttons[OF v d] have veq: "v = with_buttons d ?B" .
  note val = render_block_value[OF veq, of tpl kw]
  \<comment> \<open>the head\<close>
  from render_head_at_eq(1)[OF d, of tpl kw] hd
  have "fst (render_head_at tpl kw a h) = Inr True" by simp
  moreover from render_head_at_eq(2)[OF d hd]
  have "snd (render_head_at tpl kw a h) = ?h1" .
  ultimately have H: "render_head_at tpl kw a h = (Inr True, ?h1)" by (rule pair_eqI)
  from render_head_frame(1)[OF hd] have b1: "buttons d1 = buttons d" .
  note u1 = block_at_dict_update[OF v d b1]
  from u1(2) dist have dist1: "distinct (button_addrs ?h1 a)" by simp
  \<comment> \<open>the buttons\<close>
  let ?h2 = "snd (render_buttons_at tpl kw a ?h1)"
  note bt = render_buttons_at_block[OF u1(3) dist1 u1(4), of tpl kw]
  have run1: "render_block_at tpl kw dt a h =
      sbind (render_buttons_at tpl kw a) (\<lambda>_. sbind (render_tail_at tpl kw a) (\<lambda>_. append_at dt a)) ?h1"
    using H by (simp add: render_block_at_def sbind_def)
  show "fst (render_block_at tpl kw dt a h) = map_sum id (\<lambda>_. ()) (render_block tpl kw v)"
  proof (cases "render_buttons tpl kw ?v1")
    case (Inl e)
    with bt(1) have "fst (render_buttons_at tpl kw a ?h1) = Inl e" by simp
    with Inl hd show ?thesis unfolding run1 val by (simp add: fst_sbind)
  next
    case (Inr v2)
    with bt(1) have fb: "fst (render_buttons_at tpl kw a ?h1) = Inr ()" by simp
    from bt(2)[OF Inr] have d2: "dict_at ?h2 a = Some d1" and v2: "block_at ?h2 a = Some v2"
      by blast+
    from block_at_with_buttons[OF v2 d2] have v2eq: "v2 = with_buttons d1 (buttons v2)" .
    have tv: "render_tail tpl kw v2 =
        map_sum id (\<lambda>d3. with_buttons d3 (buttons v2)) (render_tail tpl kw d1)"
      using render_tail_with_buttons[of tpl kw d1 "buttons v2"] v2eq by simp
    show ?thesis
    proof (cases "render_tail tpl kw d1")
      case (Inl e)
      with render_tail_at_eq(1)[OF d2, of tpl kw]
      have "fst (render_tail_at tpl kw a ?h2) = Inl e" by simp
      with fb Inl Inr hd tv show ?thesis unfolding run1 val by (simp add: fst_sbind)
    next
      case (Inr d3)
      with render_tail_at_eq(1)[OF d2, of tpl kw]
      have ft: "fst (render_tail_at tpl kw a ?h2) = Inr ()" by simp
      from render_tail_at_eq(2)[OF d2 Inr]
      have st: "snd (render_tail_at tpl kw a ?h2) = ?h2[a := Dict d3]" .
      from bt(2)[OF \<open>render_buttons tpl kw ?v1 = Inr v2\<close>]
      have len2: "length ?h2 = length ?h1"
        and fr2: "\<forall>b. b \<notin> set (button_addrs ?h1 a) \<longrightarrow> ?h2 ! b = ?h1 ! b" by blast+
      from fr2 bdt u1(2) adt have "?h2 ! dt = h ! dt" by simp
      with len2 have "list_at ?h2 dt = list_at h dt"
        using cell_frame(2)[of ?h2 h dt] by simp
      with len2 adt al dt have "list_at (?h2[a := Dict d3]) dt = Some xs"
        by (simp add: list_at_update)
      then have "fst (append_at dt a (?h2[a := Dict d3])) = Inr ()"
        by (simp add: append_at_eq)
      with fb ft st Inr \<open>render_buttons tpl kw ?v1 = Inr v2\<close> hd tv show ?thesis
        unfolding run1 val by (simp add: fst_sbind snd_sbind)
    qed
  qed
  show "\<exists>v'. r = Some v' \<and>
            length (snd (render_block_at tpl kw dt a h)) = length h \<and>
            (\<forall>b. b \<noteq> a \<and> b \<noteq> dt \<and> b \<notin> set (button_addrs h a) \<longrightarrow>
                 snd (render_block_at tpl kw dt a h) ! b = h ! b) \<and>
            list_at (snd (render_block_at tpl kw dt a h)) dt = Some (xs @ [a]) \<and>
            block_at (snd (render_block_at tpl kw dt a h)) a = Some v' \<and>
            list_addr (snd (render_block_at tpl kw dt a h)) a = list_addr h a \<and>
            button_addrs (snd (render_block_at tpl kw dt a h)) a = button_addrs h a"
    if r: "render_block tpl kw v = Inr r"
  proof -
    from r hd obtain v2 v3 where rb: "render_buttons tpl kw ?v1 = Inr v2"
      and rt: "render_tail tpl kw v2 = Inr v3" and r3: "r = Some v3"
      unfolding val by (auto split: sum.splits)
    define h2 where "h2 = snd (render_buttons_at tpl kw a ?h1)"
    from bt(1) rb have fb: "fst (render_buttons_at tpl kw a ?h1) = Inr ()" by simp
    from bt(2)[OF rb] have len2: "length h2 = length ?h1"
      and d2: "dict_at h2 a = Some d1" and v2: "block_at h2 a = Some v2"
      and fr2: "\<forall>b. b \<notin> set (button_addrs ?h1 a) \<longrightarrow> h2 ! b = ?h1 ! b"
      unfolding h2_def by blast+
    have B: "render_buttons_at tpl kw a ?h1 = (Inr (), h2)"
      using fb unfolding h2_def by (rule pair_eqI) simp
    from block_at_with_buttons[OF v2 d2] have v2eq: "v2 = with_buttons d1 (buttons v2)" .
    have tv: "render_tail tpl kw v2 =
        map_sum id (\<lambda>d3. with_buttons d3 (buttons v2)) (render_tail tpl kw d1)"
      using render_tail_with_buttons[of tpl kw d1 "buttons v2"] v2eq by simp
    with rt obtain d3 where rt1: "render_tail tpl kw d1 = Inr d3"
      and v3: "v3 = with_buttons d3 (buttons v2)"
      by (cases "render_tail tpl kw d1") auto
    let ?h3 = "h2[a := Dict d3]"
    from render_tail_at_eq(1)[OF d2, of tpl kw] rt1
    have "fst (render_tail_at tpl kw a h2) = Inr ()" by simp
    moreover from render_tail_at_eq(2)[OF d2 rt1]
    have "snd (render_tail_at tpl kw a h2) = ?h3" .
    ultimately have T: "render_tail_at tpl kw a h2 = (Inr (), ?h3)" by (rule pair_eqI)
    from render_tail_buttons[OF rt1] have b3: "buttons d3 = buttons d1" .
    note u3 = block_at_dict_update[OF v2 d2 b3]
    \<comment> \<open>the cells of the block's lists and buttons are the same in all the stores\<close>
    have cong2: "list_addr h2 a = list_addr ?h1 a \<and> button_addrs h2 a = button_addrs ?h1 a"
    proof -
      have "h2 ! a = ?h1 ! a" using fr2 ba u1(2) by simp
      moreover have "\<forall>l\<in>set (list_addr ?h1 a). h2 ! l = ?h1 ! l"
      proof
        fix l assume l: "l \<in> set (list_addr ?h1 a)"
        from list_addr_cells[OF u1(3) l] obtain x where "list_at ?h1 l = Some x" by blast
        with button_addrs_cells[OF u1(3), of l] cells_disjoint(2)[of ?h1 l x]
        have "l \<notin> set (button_addrs ?h1 a)" by auto
        with fr2 show "h2 ! l = ?h1 ! l" by simp
      qed
      moreover have "\<forall>b\<in>set (button_addrs ?h1 a). h2 ! b = h2 ! b" by simp
      ultimately show ?thesis
        using len2 d2 u1(4) fr2
        by (metis (no_types, lifting) button_addrs_def list_addr_def list_at_def map_cong)
    qed
    from dt have "list_at ?h3 dt = Some xs"
    proof -
      from fr2 bdt u1(2) adt have "h2 ! dt = h ! dt" by simp
      with len2 have "list_at h2 dt = list_at h dt"
        using cell_frame(2)[of h2 h dt] by simp
      with len2 adt al dt show ?thesis by (simp add: list_at_update)
    qed
    then have A: "append_at dt a ?h3 = (Inr (), ?h3[dt := ListObj (xs @ [a])])"
      by (rule append_at_eq)
    let ?h4 = "?h3[dt := ListObj (xs @ [a])]"
    have run: "render_block_at tpl kw dt a h = (Inr (), ?h4)"
      unfolding run1 by (simp add: sbind_def B T A)
    have len4: "length ?h4 = length h" using len2 by simp
    have fr4: "\<forall>b. b \<noteq> a \<and> b \<noteq> dt \<and> b \<notin> set (button_addrs h a) \<longrightarrow> ?h4 ! b = h ! b"
      using fr2 u1(2) by simp
    have l4: "list_at ?h4 dt = Some (xs @ [a])" using dtl len2 by (simp add: list_at_update)
    \<comment> \<open>the write to \<open>data\<close> leaves the block as it is\<close>
    have la3: "list_addr ?h3 a = list_addr h a" using u3(1) cong2 u1(1) by simp
    have ba3: "button_addrs ?h3 a = button_addrs h a" using u3(2) cong2 u1(2) by simp
    have c4: "list_addr ?h4 a = list_addr ?h3 a \<and> button_addrs ?h4 a = button_addrs ?h3 a \<and>
              block_at ?h4 a = block_at ?h3 a"
    proof -
      have "length ?h4 = length ?h3" by simp
      moreover have "?h4 ! a = ?h3 ! a" using adt by simp
      moreover have "\<forall>l\<in>set (list_addr ?h3 a). ?h4 ! l = ?h3 ! l"
        using ndt la3 by (metis nth_list_update_neq)
      moreover have "\<forall>b\<in>set (button_addrs ?h3 a). ?h4 ! b = ?h3 ! b"
        using bdt ba3 by (metis nth_list_update_neq)
      ultimately show ?thesis using block_at_cong[of ?h4 ?h3 a] by blast
    qed
    from c4 u3(3) v3 have b4: "block_at ?h4 a = Some v3" by simp
    from r3 len4 fr4 l4 b4 c4 la3 ba3 show ?thesis unfolding run by simp
  qed
qed


lemma render_block_at_refines:
  assumes v: "block_at h a = Some v" and dist: "distinct (button_addrs h a)"
    and dt: "list_at h dt = Some xs" and ndt: "dt \<notin> set (list_addr h a)"
  shows "fst (render_block_at tpl kw dt a h) = map_sum id (\<lambda>_. ()) (render_block tpl kw v)"
    and "render_block tpl kw v = Inr r \<Longrightarrow>
          length (snd (render_block_at tpl kw dt a h)) = length h \<and>
          (\<forall>b. b \<noteq> a \<and> b \<noteq> dt \<and> b \<notin> set (button_addrs h a) \<longrightarrow>
               snd (render_block_at tpl kw dt a h) ! b = h ! b) \<and>
          (case r of
             None \<Rightarrow> list_at (snd (render_block_at tpl kw dt a h)) dt = Some xs
           | Some v' \<Rightarrow>
               list_at (snd (render_block_at tpl kw dt a h)) dt = Some (xs @ [a]) \<and>
               block_at (snd (render_block_at tpl kw dt a h)) a = Some v' \<and>
               list_addr (snd (render_block_at tpl kw dt a h)) a = list_addr h a \<and>
               button_addrs (snd (render_block_at tpl kw dt a h)) a = button_addrs h a)"
proof -
  from block_at_SomeD[OF v] obtain d where d: "dict_at h a = Some d" by blast
  from d have al: "a < length h" by (rule dict_at_length)
  from cells_disjoint(1)[OF d] dt have adt: "a \<noteq> dt" by auto
  from block_at_with_buttons[OF v d] have veq: "v = with_buttons d (buttons v)" .
  note val = render_block_value[OF veq, of tpl kw]
  show "fst (render_block_at tpl kw dt a h) = map_sum id (\<lambda>_. ()) (render_block tpl kw v)"
  proof (cases "render_head tpl kw d")
    case (Inl e)
    from render_block_at_head_error[OF d Inl] Inl show ?thesis unfolding val by simp
  next
    case (Inr o1)
    show ?thesis
    proof (cases o1)
      case None
      with Inr have hd: "render_head tpl kw d = Inr None" by simp
      from render_block_at_skip[OF v d dt hd] hd show ?thesis unfolding val by auto
    next
      case (Some d1)
      with Inr have hd: "render_head tpl kw d = Inr (Some d1)" by simp
      from render_block_at_go(1)[OF v d dist dt ndt hd] show ?thesis .
    qed
  qed
  show "length (snd (render_block_at tpl kw dt a h)) = length h \<and>
          (\<forall>b. b \<noteq> a \<and> b \<noteq> dt \<and> b \<notin> set (button_addrs h a) \<longrightarrow>
               snd (render_block_at tpl kw dt a h) ! b = h ! b) \<and>
          (case r of
             None \<Rightarrow> list_at (snd (render_block_at tpl kw dt a h)) dt = Some xs
           | Some v' \<Rightarrow>
               list_at (snd (render_block_at tpl kw dt a h)) dt = Some (xs @ [a]) \<and>
               block_at (snd (render_block_at tpl kw dt a h)) a = Some v' \<and>
               list_addr (snd (render_block_at tpl kw dt a h)) a = list_addr h a \<and>
               button_addrs (snd (render_block_at tpl kw dt a h)) a = button_addrs h a)"
    if r: "render_block tpl kw v = Inr r"
  proof (cases "render_head tpl kw d")
    case (Inl e)
    with r show ?thesis unfolding val by simp
  next
    case (Inr o1)
    show ?thesis
    proof (cases o1)
      case None
      with Inr have hd: "render_head tpl kw d = Inr None" by simp
      with r have rn: "r = None" unfolding val by simp
      from render_block_at_skip[OF v d dt hd] obtain d' where
        run: "render_block_at tpl kw dt a h = (Inr (), h[a := Dict d'])" by blast
      from adt al dt have "list_at (h[a := Dict d']) dt = Some xs"
        by (simp add: list_at_update)
      with rn show ?thesis unfolding run by simp
    next
      case (Some d1)
      with Inr have hd: "render_head tpl kw d = Inr (Some d1)" by simp
      from render_block_at_go(2)[OF v d dist dt ndt hd r] show ?thesis by auto
    qed
  qed
qed

lemma other_block_unchanged:
  assumes ve: "block_at h e = Some ve" and vd: "block_at h d = Some vd"
    and dt: "list_at h dt = Some xs"
    and len: "length h' = length h"
    and fr: "\<forall>b. b \<noteq> d \<and> b \<noteq> dt \<and> b \<notin> set (button_addrs h d) \<longrightarrow> h' ! b = h ! b"
    and ne: "e \<noteq> d" and nl: "dt \<notin> set (list_addr h e)"
    and disj: "set (button_addrs h e) \<inter> set (button_addrs h d) = {}"
  shows "list_addr h' e = list_addr h e" "button_addrs h' e = button_addrs h e"
    "block_at h' e = block_at h e"
proof -
  from block_at_SomeD[OF ve] obtain de where de: "dict_at h e = Some de" by blast
  from block_at_SomeD[OF vd] obtain dd where dd: "dict_at h d = Some dd" by blast
  have 1: "h' ! e = h ! e"
  proof -
    from cells_disjoint(1)[OF de] dt have "e \<noteq> dt" by auto
    moreover have "e \<notin> set (button_addrs h d)"
      using button_addrs_cells[OF vd, of e] cells_disjoint(1)[OF de] by auto
    ultimately show ?thesis using fr ne by simp
  qed
  have 2: "\<forall>l\<in>set (list_addr h e). h' ! l = h ! l"
  proof
    fix l assume l: "l \<in> set (list_addr h e)"
    from list_addr_cells[OF ve l] obtain x where x: "list_at h l = Some x" by blast
    from cells_disjoint(2)[OF x] dd have "l \<noteq> d" by auto
    moreover from l nl have "l \<noteq> dt" by auto
    moreover have "l \<notin> set (button_addrs h d)"
      using button_addrs_cells[OF vd, of l] cells_disjoint(2)[OF x] by auto
    ultimately show "h' ! l = h ! l" using fr by simp
  qed
  have 3: "\<forall>b\<in>set (button_addrs h e). h' ! b = h ! b"
  proof
    fix b assume b: "b \<in> set (button_addrs h e)"
    from button_addrs_cells[OF ve b] obtain x where x: "button_at h b = Some x" by blast
    from cells_disjoint(3)[OF x] dd have "b \<noteq> d" by auto
    moreover from cells_disjoint(3)[OF x] dt have "b \<noteq> dt" by auto
    moreover from b disj have "b \<notin> set (button_addrs h d)" by auto
    ultimately show "h' ! b = h ! b" using fr by simp
  qed
  from block_at_cong[OF len 1 2 3]
  show "list_addr h' e = list_addr h e" "button_addrs h' e = button_addrs h e"
    "block_at h' e = block_at h e" by simp_all
qed


lemma unshared_cong:
  assumes "\<forall>e\<in>set es. list_addr h' e = list_addr h e \<and> button_addrs h' e = button_addrs h e"
  shows "unshared h' es = unshared h es"
  using assms unfolding unshared_def by (intro conj_cong refl ball_cong) simp_all

lemma unshared_subset:
  assumes "unshared h es" "set es' \<subseteq> set es" "distinct es'"
  shows "unshared h es'"
  using assms unfolding unshared_def by (intro conjI ballI impI) blast+

lemma map_Some_nth:
  "map f xs = map Some ys \<Longrightarrow> x \<in> set xs \<Longrightarrow> \<exists>y. f x = Some y"
  by (metis (no_types, lifting) in_set_conv_nth length_map nth_map)

lemma for_each_Cons_Inr:
  "fst (f a h) = Inr () \<Longrightarrow> for_each f (a # as) h = for_each f as (snd (f a h))"
  by (cases "f a h") (simp add: sbind_def)

lemma for_each_Cons_Inl:
  "fst (f a h) = Inl e \<Longrightarrow> fst (for_each f (a # as) h) = Inl e"
  by (cases "f a h") (simp add: sbind_def)


lemma render_values_at:
  assumes dt: "list_at h dt = Some xs"
    and acc: "map (block_at h) xs = map Some acc"
    and bs: "map (block_at h) ds = map Some bs"
    and un: "unshared h (xs @ ds)"
    and ndt: "\<forall>e\<in>set (xs @ ds). dt \<notin> set (list_addr h e)"
  shows "fst (for_each (render_block_at tpl kw dt) ds h)
           = map_sum id (\<lambda>_. ()) (render_values tpl kw acc bs)
       \<and> (\<forall>out. render_values tpl kw acc bs = Inr out \<longrightarrow>
            (\<exists>xs'. list_at (snd (for_each (render_block_at tpl kw dt) ds h)) dt = Some xs' \<and>
                   map (block_at (snd (for_each (render_block_at tpl kw dt) ds h))) xs'
                     = map Some out \<and>
                   unshared (snd (for_each (render_block_at tpl kw dt) ds h)) xs'))"
  using assms
proof (induction ds arbitrary: h xs acc bs)
  case Nil
  then show ?case by (simp add: sreturn_def)
next
  case (Cons d ds')
  note dt = Cons.prems(1) and acc = Cons.prems(2) and un = Cons.prems(4) and ndt = Cons.prems(5)
  from Cons.prems(3) obtain v bs' where bs: "bs = v # bs'" and vd: "block_at h d = Some v"
    and bs': "map (block_at h) ds' = map Some bs'" by (cases bs) auto
  from un have distd: "distinct (button_addrs h d)" by (simp add: unshared_def)
  from ndt have ndtd: "dt \<notin> set (list_addr h d)" by simp
  note rf = render_block_at_refines[OF vd distd dt ndtd, of tpl kw]
  show ?case
  proof (cases "render_block tpl kw v")
    case (Inl e)
    with rf(1) have "fst (render_block_at tpl kw dt d h) = Inl e" by simp
    from for_each_Cons_Inl[of "render_block_at tpl kw dt", OF this] Inl bs
    show ?thesis by simp
  next
    case (Inr r)
    define h1 where "h1 = snd (render_block_at tpl kw dt d h)"
    from rf(1) Inr have "fst (render_block_at tpl kw dt d h) = Inr ()" by simp
    from for_each_Cons_Inr[of "render_block_at tpl kw dt", OF this]
    have run: "for_each (render_block_at tpl kw dt) (d # ds') h
        = for_each (render_block_at tpl kw dt) ds' h1" by (simp add: h1_def)
    from rf(2)[OF Inr] have len: "length h1 = length h"
      and fr: "\<forall>b. b \<noteq> d \<and> b \<noteq> dt \<and> b \<notin> set (button_addrs h d) \<longrightarrow> h1 ! b = h ! b"
      and cr: "case r of
             None \<Rightarrow> list_at h1 dt = Some xs
           | Some v' \<Rightarrow> list_at h1 dt = Some (xs @ [d]) \<and> block_at h1 d = Some v' \<and>
               list_addr h1 d = list_addr h d \<and> button_addrs h1 d = button_addrs h d"
      unfolding h1_def by blast+
    have other: "list_addr h1 e = list_addr h e \<and> button_addrs h1 e = button_addrs h e \<and>
        block_at h1 e = block_at h e" if e: "e \<in> set (xs @ ds')" for e
    proof -
      from e acc bs' obtain ve where ve: "block_at h e = Some ve"
        using map_Some_nth[of "block_at h" xs acc e] map_Some_nth[of "block_at h" ds' bs' e]
        by auto
      from un e have ne: "e \<noteq> d" by (auto simp: unshared_def)
      from un e ne have disj: "set (button_addrs h e) \<inter> set (button_addrs h d) = {}"
        unfolding unshared_def by auto
      from ndt e have nl: "dt \<notin> set (list_addr h e)" by auto
      from other_block_unchanged[OF ve vd dt len fr ne nl disj] show ?thesis by simp
    qed
    have acc1: "map (block_at h1) xs = map Some acc"
    proof -
      have "map (block_at h1) xs = map (block_at h) xs"
        by (rule map_cong[OF refl]) (simp add: other)
      with acc show ?thesis by simp
    qed
    have bs1: "map (block_at h1) ds' = map Some bs'"
    proof -
      have "map (block_at h1) ds' = map (block_at h) ds'"
        by (rule map_cong[OF refl]) (simp add: other)
      with bs' show ?thesis by simp
    qed
    show ?thesis
    proof (cases r)
      case None
      with cr have dt1: "list_at h1 dt = Some xs" by simp
      from un have "distinct (xs @ d # ds')" by (simp add: unshared_def)
      then have "distinct (xs @ ds')" by auto
      moreover have "set (xs @ ds') \<subseteq> set (xs @ d # ds')" by auto
      ultimately have "unshared h (xs @ ds')"
        using unshared_subset[OF un] by blast
      moreover have "unshared h1 (xs @ ds') = unshared h (xs @ ds')"
        by (rule unshared_cong) (simp add: other)
      ultimately have un1: "unshared h1 (xs @ ds')" by simp
      have ndt1: "\<forall>e\<in>set (xs @ ds'). dt \<notin> set (list_addr h1 e)"
        using ndt other by auto
      from Cons.IH[OF dt1 acc1 bs1 un1 ndt1] Inr None bs show ?thesis
        unfolding run by simp
    next
      case (Some v')
      with cr have dt1: "list_at h1 dt = Some (xs @ [d])" and vd1: "block_at h1 d = Some v'"
        and la: "list_addr h1 d = list_addr h d" and ba: "button_addrs h1 d = button_addrs h d"
        by simp_all
      from acc1 vd1 have acc2: "map (block_at h1) (xs @ [d]) = map Some (acc @ [v'])" by simp
      have all: "\<forall>e\<in>set (xs @ d # ds'). list_addr h1 e = list_addr h e \<and>
            button_addrs h1 e = button_addrs h e"
        using other la ba by auto
      have "unshared h1 (xs @ d # ds') = unshared h (xs @ d # ds')"
        using all by (rule unshared_cong)
      with un have un1: "unshared h1 ((xs @ [d]) @ ds')" by simp
      have ndt1: "\<forall>e\<in>set ((xs @ [d]) @ ds'). dt \<notin> set (list_addr h1 e)"
        using ndt all by auto
      from Cons.IH[OF dt1 acc2 bs1 un1 ndt1] Inr Some bs show ?thesis
        unfolding run by simp
    qed
  qed
qed


lemma dict_at_append: "dict_at h a = Some d \<Longrightarrow> dict_at (h @ ext) a = Some d"
  by (auto simp: dict_at_def nth_append split: if_splits)

lemma list_at_append: "list_at h a = Some d \<Longrightarrow> list_at (h @ ext) a = Some d"
  by (auto simp: list_at_def nth_append split: if_splits)

lemma button_at_append: "button_at h a = Some d \<Longrightarrow> button_at (h @ ext) a = Some d"
  by (auto simp: button_at_def nth_append split: if_splits)

lemma map_button_at_append:
  assumes "map (button_at h) as = map Some btns"
  shows "map (button_at (h @ ext)) as = map Some btns"
proof -
  have "map (button_at (h @ ext)) as = map (button_at h) as"
  proof (rule map_cong[OF refl])
    fix a assume "a \<in> set as"
    from button_cells[OF assms this] obtain b where "button_at h a = Some b" by blast
    then show "button_at (h @ ext) a = button_at h a" by (simp add: button_at_append)
  qed
  with assms show ?thesis by simp
qed

lemma block_at_append:
  assumes "block_at h a = Some v"
  shows "block_at (h @ ext) a = Some v" "list_addr (h @ ext) a = list_addr h a"
    "button_addrs (h @ ext) a = button_addrs h a"
proof -
  from block_at_SomeD[OF assms] obtain d where d: "dict_at h a = Some d"
    and c: "case buttons d of
              None \<Rightarrow> v = with_buttons d None
            | Some l \<Rightarrow> \<exists>bts btns. list_at h l = Some bts \<and>
                 map (button_at h) bts = map Some btns \<and> v = with_buttons d (Some btns)"
    by blast
  note d' = dict_at_append[OF d, of ext]
  show "list_addr (h @ ext) a = list_addr h a" by (simp add: list_addr_def d d')
  show "block_at (h @ ext) a = Some v" "button_addrs (h @ ext) a = button_addrs h a"
  proof (atomize (full), cases "buttons d")
    case None
    with c d d' show "block_at (h @ ext) a = Some v \<and> button_addrs (h @ ext) a = button_addrs h a"
      by (simp add: block_atI_None button_addrs_def list_addr_def)
  next
    case (Some l)
    with c obtain bts btns where l: "list_at h l = Some bts"
      and m: "map (button_at h) bts = map Some btns" and v: "v = with_buttons d (Some btns)"
      by auto
    note l' = list_at_append[OF l, of ext]
    from block_atI[OF d' Some l' map_button_at_append[OF m]] v d d' Some l l'
    show "block_at (h @ ext) a = Some v \<and> button_addrs (h @ ext) a = button_addrs h a"
      by (simp add: button_addrs_def list_addr_def)
  qed
qed

lemma copy_button_fresh:
  "button_at h a = Some b \<Longrightarrow> m a = None \<Longrightarrow>
     copy_button a m h = (Inr (length h, m(a \<mapsto> length h)), h @ [ButtonObj b])"
  by (simp add: copy_button_def sbind_def read_button_at alloc_def sreturn_def)

lemma copy_buttons_fresh:
  assumes "map (button_at h) as = map Some btns" "distinct as" "set as \<inter> dom m = {}"
  shows "\<exists>m'. copy_each copy_button as m h
            = (Inr ([length h..<length h + length as], m'), h @ map ButtonObj btns) \<and>
          dom m' = dom m \<union> set as"
  using assms
proof (induction as arbitrary: m h btns)
  case Nil
  then show ?case by (simp add: sreturn_def)
next
  case (Cons a as)
  from Cons.prems(1) obtain b btns' where btns: "btns = b # btns'"
    and b: "button_at h a = Some b" and rest: "map (button_at h) as = map Some btns'"
    by (cases btns) auto
  from Cons.prems(3) have ma: "m a = None" by auto
  define h1 where "h1 = h @ [ButtonObj b]"
  define m1 where "m1 = m(a \<mapsto> length h)"
  have step: "copy_button a m h = (Inr (length h, m1), h1)"
    unfolding h1_def m1_def using b ma by (rule copy_button_fresh)
  have rest1: "map (button_at h1) as = map Some btns'"
    unfolding h1_def using rest by (rule map_button_at_append)
  from Cons.prems(2) have d1: "distinct as" by simp
  from Cons.prems(2,3) have dom1: "set as \<inter> dom m1 = {}" by (auto simp: m1_def)
  from Cons.IH[OF rest1 d1 dom1] obtain m' where
    run: "copy_each copy_button as m1 h1
            = (Inr ([length h1..<length h1 + length as], m'), h1 @ map ButtonObj btns')"
    and dom': "dom m' = dom m1 \<union> set as" by blast
  have len: "length h1 = Suc (length h)" by (simp add: h1_def)
  have "copy_each copy_button (a # as) m h
      = (Inr (length h # [length h1..<length h1 + length as], m'), h1 @ map ButtonObj btns')"
    by (simp add: sbind_def step run sreturn_def)
  moreover have "length h # [length h1..<length h1 + length as]
      = [length h..<length h + length (a # as)]"
  proof -
    have "[length h..<length h + Suc (length as)]
        = length h # [Suc (length h)..<length h + Suc (length as)]"
      by (rule upt_conv_Cons) simp
    then show ?thesis by (simp add: len)
  qed
  moreover have "h1 @ map ButtonObj btns' = h @ map ButtonObj btns"
    by (simp add: h1_def btns)
  moreover have "dom m' = dom m \<union> set (a # as)"
    using dom' by (auto simp: m1_def)
  ultimately have "copy_each copy_button (a # as) m h
        = (Inr ([length h..<length h + length (a # as)], m'), h @ map ButtonObj btns) \<and>
      dom m' = dom m \<union> set (a # as)" by metis
  then show ?case by blast
qed

lemma copy_list_fresh:
  assumes l: "list_at h l = Some as" and ml: "m l = None"
    and bt: "map (button_at h) as = map Some btns" and dist: "distinct as"
    and dom: "set as \<inter> dom m = {}"
  shows "\<exists>m'. copy_list copy_button l m h
            = (Inr (length h + length as, m'),
               h @ map ButtonObj btns @ [ListObj [length h..<length h + length as]]) \<and>
          dom m' = dom m \<union> set as \<union> {l}"
proof -
  from copy_buttons_fresh[OF bt dist dom] obtain m' where
    run: "copy_each copy_button as m h
            = (Inr ([length h..<length h + length as], m'), h @ map ButtonObj btns)"
    and dom': "dom m' = dom m \<union> set as" by blast
  from bt have len: "length btns = length as" by (metis length_map)
  have "copy_list copy_button l m h
      = (Inr (length h + length as, m'(l \<mapsto> length h + length as)),
         h @ map ButtonObj btns @ [ListObj [length h..<length h + length as]])"
    by (simp add: copy_list_def ml sbind_def read_list_at[OF l] run alloc_def sreturn_def len)
  moreover have "dom (m'(l \<mapsto> length h + length as)) = dom m \<union> set as \<union> {l}"
    using dom' by auto
  ultimately show ?thesis by blast
qed


lemma with_buttons_buttons_upd [simp]: "with_buttons (d\<lparr>buttons := x\<rparr>) bs = with_buttons d bs"
  by (simp add: with_buttons_def)

lemma dict_at_ext:
  "dict_at (h @ ext) (length h + i)
     = (if i < length ext then (case ext ! i of Dict d \<Rightarrow> Some d | _ \<Rightarrow> None) else None)"
  by (simp add: dict_at_def)

lemma list_at_ext:
  "list_at (h @ ext) (length h + i)
     = (if i < length ext then (case ext ! i of ListObj d \<Rightarrow> Some d | _ \<Rightarrow> None) else None)"
  by (simp add: list_at_def)

lemma button_at_ext:
  "button_at (h @ ext) (length h + i)
     = (if i < length ext then (case ext ! i of ButtonObj d \<Rightarrow> Some d | _ \<Rightarrow> None) else None)"
  by (simp add: button_at_def)

lemma copy_dict_fresh:
  assumes v: "block_at h a = Some v" and ma: "m a = None"
    and dist: "distinct (button_addrs h a)"
    and dom: "(set (list_addr h a) \<union> set (button_addrs h a)) \<inter> dom m = {}"
  shows "\<exists>a' m' ext. copy_dict a m h = (Inr (a', m'), h @ ext) \<and>
           length h \<le> a' \<and> a' < length (h @ ext) \<and>
           block_at (h @ ext) a' = Some v \<and> distinct (button_addrs (h @ ext) a') \<and>
           (\<forall>x\<in>set (list_addr (h @ ext) a') \<union> set (button_addrs (h @ ext) a').
              length h \<le> x \<and> x < length (h @ ext)) \<and>
           dom m' = dom m \<union> {a} \<union> set (list_addr h a) \<union> set (button_addrs h a)"
proof -
  from block_at_SomeD[OF v] obtain d where d: "dict_at h a = Some d"
    and c: "case buttons d of
              None \<Rightarrow> v = with_buttons d None
            | Some l \<Rightarrow> \<exists>bts btns. list_at h l = Some bts \<and>
                 map (button_at h) bts = map Some btns \<and> v = with_buttons d (Some btns)"
    by blast
  show ?thesis
  proof (cases "buttons d")
    case None
    with c have v': "v = with_buttons d None" by simp
    have run: "copy_dict a m h = (Inr (length h, m(a \<mapsto> length h)), h @ [Dict d])"
      by (simp add: copy_dict_def ma sbind_def read_dict_at[OF d] None alloc_def sreturn_def)
    have da: "dict_at (h @ [Dict d]) (length h) = Some d"
      using dict_at_ext[of h "[Dict d]" 0] by simp
    have 1: "block_at (h @ [Dict d]) (length h) = Some v"
      using block_atI_None[OF da None] v' by simp
    have 2: "list_addr (h @ [Dict d]) (length h) = []"
      by (simp add: list_addr_def da None)
    have 3: "button_addrs (h @ [Dict d]) (length h) = []"
      by (simp add: button_addrs_def 2)
    have 4: "list_addr h a = []" by (simp add: list_addr_def d None)
    have 5: "button_addrs h a = []" by (simp add: button_addrs_def 4)
    have "copy_dict a m h = (Inr (length h, m(a \<mapsto> length h)), h @ [Dict d]) \<and>
           length h \<le> length h \<and> length h < length (h @ [Dict d]) \<and>
           block_at (h @ [Dict d]) (length h) = Some v \<and>
           distinct (button_addrs (h @ [Dict d]) (length h)) \<and>
           (\<forall>x\<in>set (list_addr (h @ [Dict d]) (length h)) \<union>
                  set (button_addrs (h @ [Dict d]) (length h)).
              length h \<le> x \<and> x < length (h @ [Dict d])) \<and>
           dom (m(a \<mapsto> length h))
             = dom m \<union> {a} \<union> set (list_addr h a) \<union> set (button_addrs h a)"
      by (simp add: run 1 2 3 4 5)
    then show ?thesis by blast
  next
    case (Some l)
    with c obtain bts btns where l: "list_at h l = Some bts"
      and bt: "map (button_at h) bts = map Some btns" and v': "v = with_buttons d (Some btns)"
      by auto
    have la: "list_addr h a = [l]" by (simp add: list_addr_def d Some)
    have ba: "button_addrs h a = bts" by (simp add: button_addrs_def la l)
    from dom la have ml: "m l = None" by auto
    from dist ba have dbts: "distinct bts" by simp
    from dom ba have dombts: "set bts \<inter> dom m = {}" by auto
    from bt have len: "length btns = length bts" by (metis length_map)
    define n where "n = length h"
    define k where "k = length bts"
    define L where "L = ListObj [n..<n + k]"
    define D where "D = Dict (d\<lparr>buttons := Some (n + k)\<rparr>)"
    define ext where "ext = map ButtonObj btns @ [L, D]"
    from copy_list_fresh[OF l ml bt dbts dombts] obtain m1 where
      run1: "copy_list copy_button l m h = (Inr (n + k, m1), h @ map ButtonObj btns @ [L])"
      and dom1: "dom m1 = dom m \<union> set bts \<union> {l}"
      unfolding n_def k_def L_def by blast
    have lext: "length ext = k + 2" by (simp add: ext_def len k_def)
    have run: "copy_dict a m h = (Inr (n + k + 1, m1(a \<mapsto> n + k + 1)), h @ ext)"
      by (simp add: copy_dict_def ma sbind_def read_dict_at[OF d] Some run1 alloc_def
          sreturn_def D_def ext_def len n_def k_def)
    have extD: "ext ! Suc k = D" and extL: "ext ! k = L"
      by (simp_all add: ext_def nth_append len k_def)
    have extB: "ext ! i = ButtonObj (btns ! i)" if "i < k" for i
      using that by (simp add: ext_def nth_append len k_def)
    have da: "dict_at (h @ ext) (n + k + 1) = Some (d\<lparr>buttons := Some (n + k)\<rparr>)"
      using dict_at_ext[of h ext "k + 1"] by (simp add: lext extD D_def n_def add.assoc)
    have li: "list_at (h @ ext) (n + k) = Some [n..<n + k]"
      using list_at_ext[of h ext k] by (simp add: lext extL L_def n_def)
    have bi: "button_at (h @ ext) (n + i) = Some (btns ! i)" if "i < k" for i
      using button_at_ext[of h ext i] that by (simp add: lext extB n_def)
    have bts': "map (button_at (h @ ext)) [n..<n + k] = map Some btns"
      by (rule nth_equalityI) (simp_all add: len k_def[symmetric] bi)
    have 1: "block_at (h @ ext) (n + k + 1) = Some v"
      using block_atI[OF da _ li bts'] v' by simp
    have 2: "list_addr (h @ ext) (n + k + 1) = [n + k]"
      using da by (simp add: list_addr_def)
    have 3: "button_addrs (h @ ext) (n + k + 1) = [n..<n + k]"
      using 2 li by (simp add: button_addrs_def)
    have "copy_dict a m h = (Inr (n + k + 1, m1(a \<mapsto> n + k + 1)), h @ ext) \<and>
           length h \<le> n + k + 1 \<and> n + k + 1 < length (h @ ext) \<and>
           block_at (h @ ext) (n + k + 1) = Some v \<and>
           distinct (button_addrs (h @ ext) (n + k + 1)) \<and>
           (\<forall>x\<in>set (list_addr (h @ ext) (n + k + 1)) \<union>
                  set (button_addrs (h @ ext) (n + k + 1)).
              length h \<le> x \<and> x < length (h @ ext)) \<and>
           dom (m1(a \<mapsto> n + k + 1))
             = dom m \<union> {a} \<union> set (list_addr h a) \<union> set (button_addrs h a)"
      using dom1 run 1 2 3 by (auto simp: la ba lext n_def)
    then show ?thesis by blast
  qed
qed


lemma cells_apart:
  assumes d: "block_at h d = Some vd" and e: "block_at h e = Some ve"
  shows "d \<notin> set (list_addr h e)" "d \<notin> set (button_addrs h e)"
    "set (list_addr h d) \<inter> set (button_addrs h e) = {}"
proof -
  from block_at_SomeD[OF d] obtain dd where dd: "dict_at h d = Some dd" by blast
  show "d \<notin> set (list_addr h e)"
  proof
    assume "d \<in> set (list_addr h e)"
    from list_addr_cells[OF e this] cells_disjoint(1)[OF dd] show False by auto
  qed
  show "d \<notin> set (button_addrs h e)"
  proof
    assume "d \<in> set (button_addrs h e)"
    from button_addrs_cells[OF e this] cells_disjoint(1)[OF dd] show False by auto
  qed
  show "set (list_addr h d) \<inter> set (button_addrs h e) = {}"
  proof (rule ccontr)
    assume "set (list_addr h d) \<inter> set (button_addrs h e) \<noteq> {}"
    then obtain x where x: "x \<in> set (list_addr h d)" "x \<in> set (button_addrs h e)" by blast
    from list_addr_cells[OF d x(1)] obtain l where l: "list_at h x = Some l" by blast
    from button_addrs_cells[OF e x(2)] cells_disjoint(2)[OF l] show False by auto
  qed
qed

lemma unshared_ConsI:
  assumes a: "a \<notin> set cs" and da: "distinct (button_addrs h a)" and cs: "unshared h cs"
    and ap: "\<forall>c\<in>set cs. set (list_addr h a) \<inter> set (list_addr h c) = {} \<and>
                  set (button_addrs h a) \<inter> set (button_addrs h c) = {}"
  shows "unshared h (a # cs)"
proof -
  from cs have dc: "distinct cs" and db: "\<forall>d\<in>set cs. distinct (button_addrs h d)"
    and pw: "\<forall>d\<in>set cs. \<forall>e\<in>set cs. d \<noteq> e \<longrightarrow>
         set (list_addr h d) \<inter> set (list_addr h e) = {} \<and>
         set (button_addrs h d) \<inter> set (button_addrs h e) = {}"
    by (simp_all add: unshared_def)
  have 1: "distinct (a # cs)" using a dc by simp
  have 2: "\<forall>d\<in>set (a # cs). distinct (button_addrs h d)" using da db by simp
  have 3: "set (list_addr h d) \<inter> set (list_addr h e) = {} \<and>
         set (button_addrs h d) \<inter> set (button_addrs h e) = {}"
    if d: "d \<in> set (a # cs)" and e: "e \<in> set (a # cs)" and ne: "d \<noteq> e" for d e
  proof (cases "d = a")
    case True
    with e ne have "e \<in> set cs" by auto
    with ap True show ?thesis by blast
  next
    case False
    with d have dcs: "d \<in> set cs" by simp
    show ?thesis
    proof (cases "e = a")
      case True
      from ap dcs have "set (list_addr h a) \<inter> set (list_addr h d) = {} \<and>
                  set (button_addrs h a) \<inter> set (button_addrs h d) = {}" by blast
      with True show ?thesis by (simp add: Int_commute)
    next
      case False
      with e have "e \<in> set cs" by simp
      with pw dcs ne show ?thesis by blast
    qed
  qed
  from 1 2 3 show ?thesis unfolding unshared_def by blast
qed


lemma copy_dicts_fresh:
  assumes bs: "map (block_at h) ds = map Some bs" and un: "unshared h ds"
    and dom: "dom m \<inter> (set ds \<union> (\<Union>d\<in>set ds. set (list_addr h d) \<union> set (button_addrs h d))) = {}"
  shows "\<exists>cs m' ext. copy_each copy_dict ds m h = (Inr (cs, m'), h @ ext) \<and>
      map (block_at (h @ ext)) cs = map Some bs \<and> unshared (h @ ext) cs \<and>
      (\<forall>c\<in>set cs. length h \<le> c \<and>
         (\<forall>x\<in>set (list_addr (h @ ext) c) \<union> set (button_addrs (h @ ext) c). length h \<le> x))"
  using assms
proof (induction ds arbitrary: m h bs)
  case Nil
  have "copy_each copy_dict [] m h = (Inr ([], m), h @ []) \<and>
      map (block_at (h @ [])) [] = map Some bs \<and> unshared (h @ []) [] \<and>
      (\<forall>c\<in>set []. length h \<le> c \<and>
         (\<forall>x\<in>set (list_addr (h @ []) c) \<union> set (button_addrs (h @ []) c). length h \<le> x))"
    using Nil.prems(1) by (simp add: sreturn_def unshared_def)
  then show ?case by blast
next
  case (Cons d ds')
  note un = Cons.prems(2) and dom = Cons.prems(3)
  from Cons.prems(1) obtain v bs' where bs: "bs = v # bs'" and vd: "block_at h d = Some v"
    and bs': "map (block_at h) ds' = map Some bs'" by (cases bs) auto
  from un have distd: "distinct (button_addrs h d)" and dds: "d \<notin> set ds'"
    and uds: "distinct ds'" by (simp_all add: unshared_def)
  from dom have md: "m d = None" by auto
  from dom have domd: "(set (list_addr h d) \<union> set (button_addrs h d)) \<inter> dom m = {}" by auto
  from copy_dict_fresh[OF vd md distd domd] obtain a' m1 ext1 where
    run1: "copy_dict d m h = (Inr (a', m1), h @ ext1)"
    and lo: "length h \<le> a'" and hi: "a' < length (h @ ext1)"
    and va: "block_at (h @ ext1) a' = Some v"
    and da: "distinct (button_addrs (h @ ext1) a')"
    and ca: "\<forall>x\<in>set (list_addr (h @ ext1) a') \<union> set (button_addrs (h @ ext1) a').
              length h \<le> x \<and> x < length (h @ ext1)"
    and dom1: "dom m1 = dom m \<union> {d} \<union> set (list_addr h d) \<union> set (button_addrs h d)"
    by blast
  define h1 where "h1 = h @ ext1"
  have ve: "\<exists>ve. block_at h e = Some ve" if "e \<in> set ds'" for e
    using map_Some_nth[OF bs' that] .
  have same: "block_at h1 e = block_at h e \<and> list_addr h1 e = list_addr h e \<and>
      button_addrs h1 e = button_addrs h e" if e: "e \<in> set ds'" for e
  proof -
    from ve[OF e] obtain w where w: "block_at h e = Some w" by blast
    from block_at_append[OF w, of ext1] w show ?thesis by (simp add: h1_def)
  qed
  have bs1: "map (block_at h1) ds' = map Some bs'"
  proof -
    have "map (block_at h1) ds' = map (block_at h) ds'"
      by (rule map_cong[OF refl]) (simp add: same)
    with bs' show ?thesis by simp
  qed
  have "unshared h ds'"
    using unshared_subset[OF un, of ds'] uds by auto
  moreover have "unshared h1 ds' = unshared h ds'"
    by (rule unshared_cong) (simp add: same)
  ultimately have un1: "unshared h1 ds'" by simp
  have dom1': "dom m1 \<inter> (set ds' \<union> (\<Union>e\<in>set ds'. set (list_addr h1 e) \<union> set (button_addrs h1 e))) = {}"
  proof (rule ccontr)
    assume "dom m1 \<inter> (set ds' \<union> (\<Union>e\<in>set ds'. set (list_addr h1 e) \<union> set (button_addrs h1 e))) \<noteq> {}"
    then obtain x where x1: "x \<in> dom m1"
      and x2: "x \<in> set ds' \<or> (\<exists>e\<in>set ds'. x \<in> set (list_addr h1 e) \<or> x \<in> set (button_addrs h1 e))"
      by auto
    from x2 same have x2': "x \<in> set ds' \<or> (\<exists>e\<in>set ds'. x \<in> set (list_addr h e) \<or> x \<in> set (button_addrs h e))"
      by auto
    from x1 dom1 consider "x \<in> dom m" | "x = d" | "x \<in> set (list_addr h d)"
      | "x \<in> set (button_addrs h d)" by auto
    then show False
    proof cases
      case 1
      with dom x2' show False by auto
    next
      case 2
      from x2' show False
      proof
        assume "x \<in> set ds'" with 2 dds show False by simp
      next
        assume "\<exists>e\<in>set ds'. x \<in> set (list_addr h e) \<or> x \<in> set (button_addrs h e)"
        then obtain e where e: "e \<in> set ds'"
          and xe: "x \<in> set (list_addr h e) \<or> x \<in> set (button_addrs h e)" by blast
        from ve[OF e] obtain w where w: "block_at h e = Some w" by blast
        from cells_apart(1,2)[OF vd w] xe 2 show False by auto
      qed
    next
      case 3
      from x2' show False
      proof
        assume xd: "x \<in> set ds'"
        from ve[OF xd] obtain w where w: "block_at h x = Some w" by blast
        from cells_apart(1)[OF w vd] 3 show False by simp
      next
        assume "\<exists>e\<in>set ds'. x \<in> set (list_addr h e) \<or> x \<in> set (button_addrs h e)"
        then obtain e where e: "e \<in> set ds'"
          and xe: "x \<in> set (list_addr h e) \<or> x \<in> set (button_addrs h e)" by blast
        from ve[OF e] obtain w where w: "block_at h e = Some w" by blast
        from e dds have ne: "d \<noteq> e" by auto
        from un e ne have "set (list_addr h d) \<inter> set (list_addr h e) = {}"
          unfolding unshared_def by auto
        moreover note cells_apart(3)[OF vd w]
        ultimately show False using 3 xe by auto
      qed
    next
      case 4
      from x2' show False
      proof
        assume xd: "x \<in> set ds'"
        from ve[OF xd] obtain w where w: "block_at h x = Some w" by blast
        from cells_apart(2)[OF w vd] 4 show False by simp
      next
        assume "\<exists>e\<in>set ds'. x \<in> set (list_addr h e) \<or> x \<in> set (button_addrs h e)"
        then obtain e where e: "e \<in> set ds'"
          and xe: "x \<in> set (list_addr h e) \<or> x \<in> set (button_addrs h e)" by blast
        from ve[OF e] obtain w where w: "block_at h e = Some w" by blast
        from e dds have ne: "d \<noteq> e" by auto
        from un e ne have "set (button_addrs h d) \<inter> set (button_addrs h e) = {}"
          unfolding unshared_def by auto
        moreover note cells_apart(3)[OF w vd]
        ultimately show False using 4 xe by auto
      qed
    qed
  qed
  from Cons.IH[OF bs1 un1 dom1'] obtain cs' m' ext2 where
    run2: "copy_each copy_dict ds' m1 h1 = (Inr (cs', m'), h1 @ ext2)"
    and bs2: "map (block_at (h1 @ ext2)) cs' = map Some bs'"
    and un2: "unshared (h1 @ ext2) cs'"
    and lo2: "\<forall>c\<in>set cs'. length h1 \<le> c \<and>
         (\<forall>x\<in>set (list_addr (h1 @ ext2) c) \<union> set (button_addrs (h1 @ ext2) c). length h1 \<le> x)"
    by blast
  define h2 where "h2 = h1 @ ext2"
  have h2: "h2 = h @ (ext1 @ ext2)" by (simp add: h2_def h1_def)
  have len1: "length h \<le> length h1" by (simp add: h1_def)
  from va have va1: "block_at h1 a' = Some v" by (simp add: h1_def)
  from block_at_append[OF va1, of ext2]
  have va2: "block_at h2 a' = Some v" and la2: "list_addr h2 a' = list_addr h1 a'"
    and ba2: "button_addrs h2 a' = button_addrs h1 a'" by (simp_all add: h2_def)
  have run: "copy_each copy_dict (d # ds') m h = (Inr (a' # cs', m'), h2)"
    using run1 run2 by (simp add: sbind_def sreturn_def h1_def h2_def)
  have 1: "map (block_at h2) (a' # cs') = map Some bs"
    using va2 bs2 bs by (simp add: h2_def)
  have 2: "unshared h2 (a' # cs')"
  proof (rule unshared_ConsI)
    from hi lo2 show "a' \<notin> set cs'" by (auto simp: h1_def)
    from da ba2 show "distinct (button_addrs h2 a')" by (simp add: h1_def)
    from un2 show "unshared h2 cs'" by (simp add: h2_def)
    show "\<forall>c\<in>set cs'. set (list_addr h2 a') \<inter> set (list_addr h2 c) = {} \<and>
                  set (button_addrs h2 a') \<inter> set (button_addrs h2 c) = {}"
    proof (intro ballI conjI)
      fix c assume c: "c \<in> set cs'"
      from lo2 c have lc: "\<forall>x\<in>set (list_addr h2 c) \<union> set (button_addrs h2 c). length h1 \<le> x"
        by (simp add: h2_def)
      from ca have la: "\<forall>x\<in>set (list_addr h2 a') \<union> set (button_addrs h2 a'). x < length h1"
        by (simp add: la2 ba2 h1_def)
      show "set (list_addr h2 a') \<inter> set (list_addr h2 c) = {}"
      proof (rule ccontr)
        assume "set (list_addr h2 a') \<inter> set (list_addr h2 c) \<noteq> {}"
        then obtain x where "x \<in> set (list_addr h2 a')" "x \<in> set (list_addr h2 c)" by blast
        with lc la have "length h1 \<le> x" "x < length h1" by blast+
        then show False by simp
      qed
      show "set (button_addrs h2 a') \<inter> set (button_addrs h2 c) = {}"
      proof (rule ccontr)
        assume "set (button_addrs h2 a') \<inter> set (button_addrs h2 c) \<noteq> {}"
        then obtain x where "x \<in> set (button_addrs h2 a')" "x \<in> set (button_addrs h2 c)"
          by blast
        with lc la have "length h1 \<le> x" "x < length h1" by blast+
        then show False by simp
      qed
    qed
  qed
  have 3: "\<forall>c\<in>set (a' # cs'). length h \<le> c \<and>
         (\<forall>x\<in>set (list_addr h2 c) \<union> set (button_addrs h2 c). length h \<le> x)"
  proof
    fix c assume "c \<in> set (a' # cs')"
    then consider "c = a'" | "c \<in> set cs'" by auto
    then show "length h \<le> c \<and>
         (\<forall>x\<in>set (list_addr h2 c) \<union> set (button_addrs h2 c). length h \<le> x)"
    proof cases
      case 1
      with lo ca show ?thesis by (simp add: la2 ba2 h1_def)
    next
      case 2
      with lo2 have c1: "length h1 \<le> c" and c2: "\<forall>x\<in>set (list_addr h2 c) \<union>
          set (button_addrs h2 c). length h1 \<le> x" unfolding h2_def by blast+
      from c1 len1 have "length h \<le> c" by simp
      moreover have "\<forall>x\<in>set (list_addr h2 c) \<union> set (button_addrs h2 c). length h \<le> x"
      proof
        fix x assume "x \<in> set (list_addr h2 c) \<union> set (button_addrs h2 c)"
        with c2 have "length h1 \<le> x" by blast
        with len1 show "length h \<le> x" by simp
      qed
      ultimately show ?thesis by blast
    qed
  qed
  from run 1 2 3 show ?case unfolding h2 by blast
qed

lemma map_block_at_append:
  assumes "map (block_at h) ds = map Some bs"
  shows "map (block_at (h @ ext)) ds = map Some bs"
    "\<forall>e\<in>set ds. list_addr (h @ ext) e = list_addr h e \<and>
        button_addrs (h @ ext) e = button_addrs h e"
proof -
  have same: "block_at (h @ ext) e = block_at h e \<and> list_addr (h @ ext) e = list_addr h e \<and>
      button_addrs (h @ ext) e = button_addrs h e" if e: "e \<in> set ds" for e
  proof -
    from map_Some_nth[OF assms e] obtain w where w: "block_at h e = Some w" by blast
    from block_at_append[OF w, of ext] w show ?thesis by simp
  qed
  have "map (block_at (h @ ext)) ds = map (block_at h) ds"
    by (rule map_cong[OF refl]) (simp add: same)
  with assms show "map (block_at (h @ ext)) ds = map Some bs" by simp
  from same show "\<forall>e\<in>set ds. list_addr (h @ ext) e = list_addr h e \<and>
        button_addrs (h @ ext) e = button_addrs h e" by blast
qed

lemma unshared_append:
  assumes "map (block_at h) ds = map Some bs" "unshared h ds"
  shows "unshared (h @ ext) ds"
proof -
  have "unshared (h @ ext) ds = unshared h ds"
    using map_block_at_append(2)[OF assms(1)] by (rule unshared_cong)
  with assms(2) show ?thesis by simp
qed

lemma deepcopy_fresh:
  assumes t: "list_at h t = Some ds" and bs: "map (block_at h) ds = map Some bs"
    and un: "unshared h ds"
  shows "\<exists>cs ext. deepcopy t h = (Inr (length h + length ext), h @ ext @ [ListObj cs]) \<and>
      map (block_at (h @ ext @ [ListObj cs])) cs = map Some bs \<and>
      unshared (h @ ext @ [ListObj cs]) cs \<and>
      (\<forall>c\<in>set cs. \<forall>x\<in>set (list_addr (h @ ext @ [ListObj cs]) c). length h \<le> x)"
proof -
  have "dom (Map.empty :: memo) \<inter>
      (set ds \<union> (\<Union>d\<in>set ds. set (list_addr h d) \<union> set (button_addrs h d))) = {}" by simp
  from copy_dicts_fresh[OF bs un this] obtain cs m' ext where
    run: "copy_each copy_dict ds Map.empty h = (Inr (cs, m'), h @ ext)"
    and bs1: "map (block_at (h @ ext)) cs = map Some bs"
    and un1: "unshared (h @ ext) cs"
    and lo: "\<forall>c\<in>set cs. length h \<le> c \<and>
         (\<forall>x\<in>set (list_addr (h @ ext) c) \<union> set (button_addrs (h @ ext) c). length h \<le> x)"
    by blast
  have d: "deepcopy t h = (Inr (length h + length ext), h @ ext @ [ListObj cs])"
    by (simp add: deepcopy_def copy_list_def sbind_def read_list_at[OF t] run alloc_def
        sreturn_def)
  from map_block_at_append[OF bs1, of "[ListObj cs]"]
  have bs2: "map (block_at (h @ ext @ [ListObj cs])) cs = map Some bs"
    and same: "\<forall>e\<in>set cs. list_addr (h @ ext @ [ListObj cs]) e = list_addr (h @ ext) e \<and>
        button_addrs (h @ ext @ [ListObj cs]) e = button_addrs (h @ ext) e"
    by simp_all
  from unshared_append[OF bs1 un1, of "[ListObj cs]"]
  have un2: "unshared (h @ ext @ [ListObj cs]) cs" by simp
  have lo2: "\<forall>c\<in>set cs. \<forall>x\<in>set (list_addr (h @ ext @ [ListObj cs]) c). length h \<le> x"
    using lo same by simp
  from d bs2 un2 lo2 show ?thesis by blast
qed

lemma holds_iff:
  "holds h t bs \<longleftrightarrow> (\<exists>ds. list_at h t = Some ds \<and> map (block_at h) ds = map Some bs \<and>
     unshared h ds)"
  by (auto simp: holds_def template_at_def those_eq_Some_iff split: option.splits)

lemma render_store_refines:
  assumes "holds h t bs"
  shows "fst (render_message_template_store tpl t kw h)
           = map_sum id (\<lambda>_. length h) (render_values tpl kw [] bs)"
    and "render_values tpl kw [] bs = Inr out \<Longrightarrow>
           holds (snd (render_message_template_store tpl t kw h)) (length h) out"
proof -
  from assms obtain ds where t: "list_at h t = Some ds"
    and bs: "map (block_at h) ds = map Some bs" and un: "unshared h ds"
    by (auto simp: holds_iff)
  define h0 where "h0 = h @ [ListObj []]"
  note t0 = list_at_append[OF t, of "[ListObj []]"]
  note bs0 = map_block_at_append(1)[OF bs, of "[ListObj []]"]
  note un0 = unshared_append[OF bs un, of "[ListObj []]"]
  from deepcopy_fresh[OF t0 bs0 un0] obtain cs ext where
    d: "deepcopy t h0 = (Inr (length h0 + length ext), h0 @ ext @ [ListObj cs])"
    and bs1: "map (block_at (h0 @ ext @ [ListObj cs])) cs = map Some bs"
    and un1: "unshared (h0 @ ext @ [ListObj cs]) cs"
    and lo: "\<forall>c\<in>set cs. \<forall>x\<in>set (list_addr (h0 @ ext @ [ListObj cs]) c). length h0 \<le> x"
    unfolding h0_def by blast
  define h1 where "h1 = h0 @ ext @ [ListObj cs]"
  have h1: "h1 = h @ ([ListObj []] @ ext @ [ListObj cs])" by (simp add: h1_def h0_def)
  have dt: "list_at h1 (length h) = Some []"
    using list_at_ext[of h "[ListObj []] @ ext @ [ListObj cs]" 0] by (simp add: h1)
  have nc: "list_at h1 (length h0 + length ext) = Some cs"
    using list_at_ext[of "h0 @ ext" "[ListObj cs]" 0] by (simp add: h1_def)
  have bs1': "map (block_at h1) cs = map Some bs" using bs1 by (simp add: h1_def)
  have un1': "unshared h1 ([] @ cs)" using un1 by (simp add: h1_def)
  have ndt: "\<forall>e\<in>set ([] @ cs). length h \<notin> set (list_addr h1 e)"
  proof
    fix e assume "e \<in> set ([] @ cs)"
    with lo have "\<forall>x\<in>set (list_addr h1 e). length h0 \<le> x" by (simp add: h1_def)
    moreover have "length h < length h0" by (simp add: h0_def)
    ultimately show "length h \<notin> set (list_addr h1 e)" by auto
  qed
  have acc: "map (block_at h1) [] = map Some []" by simp
  note loop = render_values_at[OF dt acc bs1' un1' ndt, of tpl kw]
  define r where "r = for_each (render_block_at tpl kw (length h)) cs h1"
  have run: "render_message_template_store tpl t kw h
      = (case r of (Inl e, h') \<Rightarrow> (Inl e, h') | (Inr u, h') \<Rightarrow> (Inr (length h), h'))"
    using d by (simp add: render_message_template_store_def sbind_def alloc_def
        read_list_at[OF nc] sreturn_def h0_def[symmetric] h1_def[symmetric] r_def
        split: prod.splits sum.splits)
  from loop have f: "fst r = map_sum id (\<lambda>_. ()) (render_values tpl kw [] bs)"
    by (simp add: r_def)
  show "fst (render_message_template_store tpl t kw h)
           = map_sum id (\<lambda>_. length h) (render_values tpl kw [] bs)"
    using f by (cases r; cases "render_values tpl kw [] bs") (auto simp: run split: sum.splits)
  show "holds (snd (render_message_template_store tpl t kw h)) (length h) out"
    if out: "render_values tpl kw [] bs = Inr out"
  proof -
    from f out have "fst r = Inr ()" by simp
    then have s: "snd (render_message_template_store tpl t kw h) = snd r"
      by (cases r) (auto simp: run)
    from loop out obtain xs' where "list_at (snd r) (length h) = Some xs'"
      "map (block_at (snd r)) xs' = map Some out" "unshared (snd r) xs'"
      unfolding r_def by blast
    then show ?thesis by (simp add: s holds_iff)
  qed
qed

subsection \<open>What a call on an unshared template returns\<close>

lemma holds_template_at: "holds h t bs \<Longrightarrow> template_at h t = Some bs"
  by (simp add: holds_def)

lemma render_store_returns:
  assumes "holds h t bs" and "render_message_template_store tpl t kw h = (Inr data, h')"
  shows "\<exists>out. render_values tpl kw [] bs = Inr out \<and> data = length h \<and> holds h' data out \<and>
           template_at h' data = Some out"
proof -
  from render_store_refines(1)[OF assms(1), of tpl kw] assms(2)
  have "map_sum id (\<lambda>_. length h) (render_values tpl kw [] bs) = Inr data" by simp
  then obtain out where out: "render_values tpl kw [] bs = Inr out" and d: "data = length h"
    by (cases "render_values tpl kw [] bs") auto
  from render_store_refines(2)[OF assms(1) out] assms(2) d
  have "holds h' data out" by simp
  with out d show ?thesis by (auto simp: holds_template_at)
qed

lemma render_store_raises:
  assumes "holds h t bs" and "render_values tpl kw [] bs = Inl e"
  shows "fst (render_message_template_store tpl t kw h) = Inl e"
  using render_store_refines(1)[OF assms(1), of tpl kw] assms(2) by simp

lemma render_store_again:
  assumes "holds h t out" and "\<forall>x\<in>set out. render_block tpl kw x = Inr (Some x)"
  shows "\<exists>data h'. render_message_template_store tpl t kw h = (Inr data, h') \<and>
           template_at h' data = Some out"
proof -
  from render_values_fixed[OF assms(2), of "[]"]
  have v: "render_values tpl kw [] out = Inr out" by simp
  from render_store_refines(1)[OF assms(1), of tpl kw] v
  have "fst (render_message_template_store tpl t kw h) = Inr (length h)" by simp
  moreover from render_store_refines(2)[OF assms(1) v]
  have "template_at (snd (render_message_template_store tpl t kw h)) (length h) = Some out"
    by (rule holds_template_at)
  ultimately show ?thesis by (metis prod.collapse)
qed

lemmas read_defs =
  holds_def template_at_def list_at_def block_at_def dict_at_def buttons_at_def button_at_def
  unshared_def list_addr_def button_addrs_def with_buttons_def single_def roster_store_def

text \<open>
  A dict that occurs twice in the template is one object in the copy, and the loop
  renders it twice: here the title goes from \<open>{{x}}\<close> to \<open>{{y}}\<close> to \<open>Z\<close>, where
  \<open>render_values\<close> renders \<open>{{x}}\<close> once, twice over.
\<close>

lemma shared_dict_rendered_twice:
  "\<not> holds [ListObj [1, 1], Dict (empty_dict\<lparr>title := Some ''{{x}}''\<rparr>)] 0
       [empty_block\<lparr>title := Some ''{{x}}''\<rparr>, empty_block\<lparr>title := Some ''{{x}}''\<rparr>]
   \<and> render_message_template_store placeholders 0
        [''x'' \<mapsto> PyStr ''{{y}}'', ''y'' \<mapsto> PyStr ''Z'']
        [ListObj [1, 1], Dict (empty_dict\<lparr>title := Some ''{{x}}''\<rparr>)]
      = (Inr 2,
         [ListObj [1, 1], Dict (empty_dict\<lparr>title := Some ''{{x}}''\<rparr>),
          ListObj [3, 3], Dict (empty_dict\<lparr>title := Some ''Z''\<rparr>), ListObj [3, 3]])
   \<and> render_values placeholders [''x'' \<mapsto> PyStr ''{{y}}'', ''y'' \<mapsto> PyStr ''Z''] []
        [empty_block\<lparr>title := Some ''{{x}}''\<rparr>, empty_block\<lparr>title := Some ''{{x}}''\<rparr>]
      = Inr [empty_block\<lparr>title := Some ''{{y}}''\<rparr>, empty_block\<lparr>title := Some ''{{y}}''\<rparr>]"
  by (simp add: store_defs render_defs read_defs)

section \<open>The store: an example\<close>

text \<open>
  The call on the example: \<open>data\<close> is allocated at 4, the copy of the button at 5, of
  the list of buttons at 6, of the block at 7 and of the template at 8; the loop renders
  the title and the button in the copies and appends the block's copy to \<open>data\<close>.
\<close>

lemma render_store_example:
  "render_message_template_store placeholders 0 [''name'' \<mapsto> PyStr ''Ann''] example_store
   = (Inr 4,
      example_store @
      [ListObj [7],
       ButtonObj (join_button\<lparr>button_value := Some ''Ann''\<rparr>),
       ListObj [5],
       Dict (empty_dict\<lparr>title := Some ''Hi Ann'', buttons := Some 6\<rparr>),
       ListObj [7]])"
  by (simp add: store_defs render_defs)

section \<open>The store: the claim\<close>

text \<open>
  C6. Whatever the template, the context and the store, and whether the call returns or
  raises: the store after the call, cut to the addresses that existed before the call,
  is the store before the call. Every object the caller could reach then (the template
  list, its block dicts, their lists of buttons, the button dicts) is as it was; the
  writes of the loop went to the deep copy, at addresses the call allocated.
\<close>

theorem render_leaves_input_unchanged:
  "take (length h) (snd (render_message_template_store tpl mt kw h)) = h"
proof -
  have c: "closed_from (length h) h" by (simp add: closed_from_def)
  note d = keeps_belowD[OF keeps_below_render_message_template_store[of "length h" tpl mt kw]
     order_refl c]
  from d(1,2) show ?thesis
    by (auto intro!: nth_equalityI)
qed

section \<open>The renderer: the claims\<close>

text \<open>
  The claims about the whole call are stated of the function on the store, for a
  template in which no object occurs twice (\<open>holds\<close>), and read the result off the
  store as values.
\<close>



text \<open>
  C3, as stated, fails: a block whose \<open>title_link\<close> is the empty template is kept,
  although the template resolves to the empty string. The guard \<open>if d.get("title_link")\<close>
  renders and tests a link only when it is there and not empty.
\<close>

theorem empty_title_link_kept:
  "placeholders [] Map.empty = Inr []
   \<and> render_message_template_store placeholders 0 Map.empty
        (single (empty_dict\<lparr>title := Some ''Ticket'', title_link := Some []\<rparr>))
      = (Inr 2,
         single (empty_dict\<lparr>title := Some ''Ticket'', title_link := Some []\<rparr>) @
         [ListObj [3], Dict (empty_dict\<lparr>title := Some ''Ticket'', title_link := Some []\<rparr>),
          ListObj [3]])
   \<and> template_at
        (single (empty_dict\<lparr>title := Some ''Ticket'', title_link := Some []\<rparr>) @
         [ListObj [3], Dict (empty_dict\<lparr>title := Some ''Ticket'', title_link := Some []\<rparr>),
          ListObj [3]]) 2
      = Some [empty_block\<lparr>title := Some ''Ticket'', title_link := Some []\<rparr>]"
  by (simp add: store_defs render_defs read_defs)

text \<open>
  C3, amended. For a template in which no object occurs twice: a block is skipped when
  its \<open>title_link\<close> is there, not empty, and renders to \<open>"None"\<close> or to the empty
  string; a skipped block raises nothing. A call that returns gives the renderings of
  the blocks that are not skipped, in the order of the input, so its length is the
  input's minus the number of skipped blocks.
\<close>

theorem skipped_blocks_excluded:
  assumes "holds h t bs"
    and "render_message_template_store tpl t kw h = (Inr data, h')"
  shows "\<exists>out. template_at h' data = Some out
         \<and> list_all2 (\<lambda>d d'. render_block tpl kw d = Inr (Some d'))
             (filter (\<lambda>d. \<not> skipped tpl kw d) bs) out
         \<and> length out = length bs - length (filter (skipped tpl kw) bs)
         \<and> (\<forall>d\<in>set bs. skipped tpl kw d \<longrightarrow> render_block tpl kw d = Inr None)"
proof -
  from render_store_returns[OF assms] obtain out where
    v: "render_values tpl kw [] bs = Inr out" and t: "template_at h' data = Some out" by blast
  note r = render_values_all_Inr[OF v]
  from r(1) have "length out = length (filter (\<lambda>d. \<not> skipped tpl kw d) bs)"
    by (simp add: list_all2_lengthD)
  with r t show ?thesis by (simp add: length_filter_not)
qed

theorem skipped_blocks_excluded_witness:
  "holds roster_store 0
     [empty_block\<lparr>title := Some ''Commander''\<rparr>,
      empty_block\<lparr>title := Some ''Ticket'', title_link := Some ''{{ticket_weblink}}''\<rparr>,
      empty_block\<lparr>title := Some ''Title'', text := Some ''{{title}}''\<rparr>]
   \<and> render_message_template_store placeholders 0
        [''ticket_weblink'' \<mapsto> PyNone, ''title'' \<mapsto> PyStr ''Outage''] roster_store
      = (Inr 4,
         roster_store @
         [ListObj [5, 7],
          Dict (empty_dict\<lparr>title := Some ''Commander''\<rparr>),
          Dict (empty_dict\<lparr>title := Some ''Ticket'', title_link := Some ''None''\<rparr>),
          Dict (empty_dict\<lparr>title := Some ''Title'', text := Some ''Outage''\<rparr>),
          ListObj [5, 6, 7]])
   \<and> template_at
        (roster_store @
         [ListObj [5, 7],
          Dict (empty_dict\<lparr>title := Some ''Commander''\<rparr>),
          Dict (empty_dict\<lparr>title := Some ''Ticket'', title_link := Some ''None''\<rparr>),
          Dict (empty_dict\<lparr>title := Some ''Title'', text := Some ''Outage''\<rparr>),
          ListObj [5, 6, 7]]) 4
      = Some [empty_block\<lparr>title := Some ''Commander''\<rparr>,
              empty_block\<lparr>title := Some ''Title'', text := Some ''Outage''\<rparr>]
   \<and> skipped placeholders [''ticket_weblink'' \<mapsto> PyNone, ''title'' \<mapsto> PyStr ''Outage'']
        (empty_block\<lparr>title := Some ''Ticket'', title_link := Some ''{{ticket_weblink}}''\<rparr>)
   \<and> length [empty_block\<lparr>title := Some ''Commander''\<rparr>,
              empty_block\<lparr>title := Some ''Title'', text := Some ''Outage''\<rparr>] = 3 - 1"
proof -
  have a: "holds roster_store 0
     [empty_block\<lparr>title := Some ''Commander''\<rparr>,
      empty_block\<lparr>title := Some ''Ticket'', title_link := Some ''{{ticket_weblink}}''\<rparr>,
      empty_block\<lparr>title := Some ''Title'', text := Some ''{{title}}''\<rparr>]"
    by (simp add: read_defs empty_dict_def empty_block_def)
  have b: "render_message_template_store placeholders 0
        [''ticket_weblink'' \<mapsto> PyNone, ''title'' \<mapsto> PyStr ''Outage''] roster_store
      = (Inr 4,
         roster_store @
         [ListObj [5, 7],
          Dict (empty_dict\<lparr>title := Some ''Commander''\<rparr>),
          Dict (empty_dict\<lparr>title := Some ''Ticket'', title_link := Some ''None''\<rparr>),
          Dict (empty_dict\<lparr>title := Some ''Title'', text := Some ''Outage''\<rparr>),
          ListObj [5, 6, 7]])"
    by (simp add: store_defs render_defs read_defs)
  from skipped_blocks_excluded[OF a b] a b show ?thesis
    by (simp add: read_defs empty_dict_def render_defs skipped_def)
qed

text \<open>
  C4, as stated, fails on a block that also has a status mapping: the text renders to
  2501 characters, and the output text is the mapping's value, 44 characters long.
\<close>

theorem long_text_replaced_by_status:
  "placeholders ''{{description}}'' active_kwargs = Inr long_text
   \<and> length long_text = 2501
   \<and> render_message_template_store placeholders 0 active_kwargs
        (single (empty_dict\<lparr>text := Some ''{{description}}'',
                             status_mapping := Some status_descriptions\<rparr>))
      = (Inr 2,
         single (empty_dict\<lparr>text := Some ''{{description}}'',
                             status_mapping := Some status_descriptions\<rparr>) @
         [ListObj [3],
          Dict (empty_dict\<lparr>text := Some ''This incident is under active investigation.'',
                           status_mapping := Some status_descriptions\<rparr>),
          ListObj [3]])
   \<and> length ''This incident is under active investigation.'' = 44"
  by (simp add: store_defs render_defs read_defs active_kwargs_def long_text_def
      status_descriptions_def)

text \<open>
  C4, amended. For a template in which no object occurs twice, and a block of it that is
  not skipped and has no status mapping (or an empty one), whose text is there and not
  empty and renders to \<open>r\<close>: in the result of a returning call the block's text is the
  first 2500 characters of \<open>r\<close>; it has exactly 2500 characters when \<open>r\<close> has more, and
  is \<open>r\<close> itself otherwise.
\<close>

theorem text_truncated_to_2500:
  assumes "holds h t bs"
    and "render_message_template_store tpl t kw h = (Inr data, h')"
    and "d \<in> set bs" and "\<not> skipped tpl kw d" and "no_status_mapping d"
    and "text d = Some s" and "s \<noteq> []" and "tpl s kw = Inr r"
  shows "\<exists>out. template_at h' data = Some out \<and>
           (\<exists>d'\<in>set out. render_block tpl kw d = Inr (Some d') \<and>
              text d' = Some (take 2500 r) \<and>
              (if length r > 2500 then length (take 2500 r) = 2500 else text d' = Some r))"
proof -
  from render_store_returns[OF assms(1,2)] obtain out where
    v: "render_values tpl kw [] bs = Inr out" and t: "template_at h' data = Some out" by blast
  from render_values_member[OF v assms(3,4)] obtain d' where d': "d' \<in> set out"
    "render_block tpl kw d = Inr (Some d')" by blast
  from render_block_text[OF d'(2) assms(6,7,8,5)] have "text d' = Some (truncate_2500 r)" .
  with d' t show ?thesis by (auto simp: truncate_2500_def)
qed

theorem text_truncated_to_2500_witness:
  "holds (single (empty_dict\<lparr>title := Some ''Description'', text := Some ''{{description}}''\<rparr>)) 0
     [empty_block\<lparr>title := Some ''Description'', text := Some ''{{description}}''\<rparr>]
   \<and> render_message_template_store placeholders 0 active_kwargs
        (single (empty_dict\<lparr>title := Some ''Description'', text := Some ''{{description}}''\<rparr>))
      = (Inr 2,
         single (empty_dict\<lparr>title := Some ''Description'', text := Some ''{{description}}''\<rparr>) @
         [ListObj [3],
          Dict (empty_dict\<lparr>title := Some ''Description'', text := Some (take 2500 long_text)\<rparr>),
          ListObj [3]])
   \<and> placeholders ''{{description}}'' active_kwargs = Inr long_text
   \<and> length long_text = 2501 \<and> length (take 2500 long_text) = 2500"
proof -
  have a: "holds (single (empty_dict\<lparr>title := Some ''Description'', text := Some ''{{description}}''\<rparr>)) 0
     [empty_block\<lparr>title := Some ''Description'', text := Some ''{{description}}''\<rparr>]"
    by (simp add: read_defs empty_dict_def empty_block_def)
  have b: "render_message_template_store placeholders 0 active_kwargs
        (single (empty_dict\<lparr>title := Some ''Description'', text := Some ''{{description}}''\<rparr>))
      = (Inr 2,
         single (empty_dict\<lparr>title := Some ''Description'', text := Some ''{{description}}''\<rparr>) @
         [ListObj [3],
          Dict (empty_dict\<lparr>title := Some ''Description'', text := Some (take 2500 long_text)\<rparr>),
          ListObj [3]])"
    by (simp add: store_defs render_defs read_defs active_kwargs_def long_text_def)
  have c: "placeholders ''{{description}}'' active_kwargs = Inr long_text"
    by (simp add: render_defs active_kwargs_def)
  from text_truncated_to_2500[OF a b, of
      "empty_block\<lparr>title := Some ''Description'', text := Some ''{{description}}''\<rparr>"
      "''{{description}}''" long_text] a b c
  show ?thesis by (simp add: long_text_def)
qed

text \<open>
  C5, as stated, fails twice. A block with a status mapping whose link renders to
  \<open>"None"\<close> is skipped before the lookup, so the call returns although the status is not
  a key of the mapping; and an empty mapping is never looked up.
\<close>

theorem status_not_looked_up:
  "map_of status_descriptions (PyStr ''Stable'') = None
   \<and> render_message_template_store placeholders 0
        [''status'' \<mapsto> PyStr ''Stable'', ''ticket_weblink'' \<mapsto> PyNone]
        (single (empty_dict\<lparr>title_link := Some ''{{ticket_weblink}}'',
                             status_mapping := Some status_descriptions\<rparr>))
      = (Inr 2,
         single (empty_dict\<lparr>title_link := Some ''{{ticket_weblink}}'',
                             status_mapping := Some status_descriptions\<rparr>) @
         [ListObj [],
          Dict (empty_dict\<lparr>title_link := Some ''None'',
                           status_mapping := Some status_descriptions\<rparr>),
          ListObj [3]])
   \<and> render_message_template_store placeholders 0 [''status'' \<mapsto> PyStr ''Stable'']
        (single (empty_dict\<lparr>status_mapping := Some []\<rparr>))
      = (Inr 2,
         single (empty_dict\<lparr>status_mapping := Some []\<rparr>) @
         [ListObj [3], Dict (empty_dict\<lparr>status_mapping := Some []\<rparr>), ListObj [3]])"
  by (simp add: store_defs render_defs read_defs status_descriptions_def)

text \<open>
  C5, amended. For a template in which no object occurs twice, and a block of it that is
  not skipped and whose status mapping is there and not empty: a call that returns has
  replaced the block's text with the mapping's value for \<open>kwargs["status"]\<close>; and when
  \<open>kwargs\<close> has no status, or one that is not a key of the mapping, the lookup raises
  \<open>KeyError\<close> and the call returns no result.
\<close>

theorem status_mapping_lookup:
  assumes "holds h t bs"
    and "d \<in> set bs" and "status_mapping d = Some m" and "m \<noteq> []"
    and "\<not> skipped tpl kw d"
  shows "(\<forall>st v data h'. kw ''status'' = Some st \<and> map_of m st = Some v \<and>
            render_message_template_store tpl t kw h = (Inr data, h') \<longrightarrow>
            (\<exists>out. template_at h' data = Some out \<and>
               (\<exists>d'\<in>set out. render_block tpl kw d = Inr (Some d') \<and> text d' = Some v)))
       \<and> ((\<forall>st. kw ''status'' = Some st \<longrightarrow> map_of m st = None) \<longrightarrow>
            status_lookup kw m = Inl KeyError \<and>
            (\<exists>e. fst (render_message_template_store tpl t kw h) = Inl e))"
proof (intro conjI allI impI)
  fix st v data h'
  assume a: "kw ''status'' = Some st \<and> map_of m st = Some v \<and>
            render_message_template_store tpl t kw h = (Inr data, h')"
  then have c: "render_message_template_store tpl t kw h = (Inr data, h')" by simp
  from render_store_returns[OF assms(1) c] obtain out where
    v: "render_values tpl kw [] bs = Inr out" and t: "template_at h' data = Some out" by blast
  from render_values_member[OF v assms(2,5)] obtain d' where
    d': "d' \<in> set out" "render_block tpl kw d = Inr (Some d')" by blast
  from render_block_reaches_tail[OF d'(2)] obtain d2 where
    "render_tail tpl kw d2 = Inr d'" "status_mapping d2 = status_mapping d" by blast
  with assms(3) a have "text d' = Some v" by (simp add: render_tail_status_text)
  with d' t show "\<exists>out. template_at h' data = Some out \<and>
               (\<exists>d'\<in>set out. render_block tpl kw d = Inr (Some d') \<and> text d' = Some v)"
    by blast
next
  assume a: "\<forall>st. kw ''status'' = Some st \<longrightarrow> map_of m st = None"
  then show "status_lookup kw m = Inl KeyError" by (rule status_lookup_Inl)
  show "\<exists>e. fst (render_message_template_store tpl t kw h) = Inl e"
  proof (cases "render_values tpl kw [] bs")
    case (Inl e)
    from render_store_raises[OF assms(1) this] show ?thesis by blast
  next
    case (Inr out)
    from render_values_member[OF Inr assms(2,5)] obtain d' where
      "render_block tpl kw d = Inr (Some d')" by blast
    from render_block_reaches_tail[OF this] obtain d2 where
      "render_tail tpl kw d2 = Inr d'" "status_mapping d2 = status_mapping d" by blast
    with assms(3,4) have "\<exists>v. status_lookup kw m = Inr v" by (simp add: render_tail_status)
    with a show ?thesis by (simp add: status_lookup_Inl)
  qed
qed

theorem status_mapping_lookup_witness:
  "holds (single (empty_dict\<lparr>title := Some ''Status - {{status}}'',
                             status_mapping := Some status_descriptions\<rparr>)) 0
     [empty_block\<lparr>title := Some ''Status - {{status}}'',
                   status_mapping := Some status_descriptions\<rparr>]
   \<and> render_message_template_store placeholders 0 [''status'' \<mapsto> PyStr ''Active'']
        (single (empty_dict\<lparr>title := Some ''Status - {{status}}'',
                             status_mapping := Some status_descriptions\<rparr>))
      = (Inr 2,
         single (empty_dict\<lparr>title := Some ''Status - {{status}}'',
                             status_mapping := Some status_descriptions\<rparr>) @
         [ListObj [3],
          Dict (empty_dict\<lparr>title := Some ''Status - Active'',
                           text := Some ''This incident is under active investigation.'',
                           status_mapping := Some status_descriptions\<rparr>),
          ListObj [3]])
   \<and> map_of status_descriptions (PyStr ''Stable'') = None
   \<and> status_lookup [''status'' \<mapsto> PyStr ''Stable''] status_descriptions = Inl KeyError
   \<and> fst (render_message_template_store placeholders 0 [''status'' \<mapsto> PyStr ''Stable'']
        (single (empty_dict\<lparr>title := Some ''Status - {{status}}'',
                             status_mapping := Some status_descriptions\<rparr>)))
      = Inl KeyError"
proof -
  have a: "holds (single (empty_dict\<lparr>title := Some ''Status - {{status}}'',
                             status_mapping := Some status_descriptions\<rparr>)) 0
     [empty_block\<lparr>title := Some ''Status - {{status}}'',
                   status_mapping := Some status_descriptions\<rparr>]"
    by (simp add: read_defs empty_dict_def empty_block_def)
  from status_mapping_lookup[OF a, of
      "empty_block\<lparr>title := Some ''Status - {{status}}'',
                    status_mapping := Some status_descriptions\<rparr>"
      status_descriptions placeholders "[''status'' \<mapsto> PyStr ''Stable'']"] a
  show ?thesis
    by (simp add: store_defs render_defs read_defs status_descriptions_def skipped_def)
qed

text \<open>
  C9, as stated, fails twice. On a block with a status mapping and no placeholder
  anywhere the first call looks the status up in its context and returns; the second
  call, with the empty context, has no \<open>"status"\<close> to look up and raises \<open>KeyError\<close>.
  And a text without a placeholder is not always rendered to itself: the engine drops
  the newline at the end of a template, so the text \<open>a\<close> followed by two newlines comes
  back with one newline from the first call and with none from the second.
\<close>

theorem rerender_fails:
  "render_message_template_store placeholders 0 [''status'' \<mapsto> PyStr ''Active'']
     (single (empty_dict\<lparr>title := Some ''Status'', status_mapping := Some status_descriptions\<rparr>))
   = (Inr 2,
      single (empty_dict\<lparr>title := Some ''Status'', status_mapping := Some status_descriptions\<rparr>) @
      [ListObj [3],
       Dict (empty_dict\<lparr>title := Some ''Status'',
                        text := Some ''This incident is under active investigation.'',
                        status_mapping := Some status_descriptions\<rparr>),
       ListObj [3]])
   \<and> fst (render_message_template_store placeholders 2 Map.empty
       (single (empty_dict\<lparr>title := Some ''Status'', status_mapping := Some status_descriptions\<rparr>) @
        [ListObj [3],
         Dict (empty_dict\<lparr>title := Some ''Status'',
                          text := Some ''This incident is under active investigation.'',
                          status_mapping := Some status_descriptions\<rparr>),
         ListObj [3]]))
     = Inl KeyError
   \<and> render_message_template_store placeholders 0 Map.empty
       (single (empty_dict\<lparr>text := Some [CHR ''a'', CHR 0x0A, CHR 0x0A]\<rparr>))
     = (Inr 2,
        single (empty_dict\<lparr>text := Some [CHR ''a'', CHR 0x0A, CHR 0x0A]\<rparr>) @
        [ListObj [3], Dict (empty_dict\<lparr>text := Some [CHR ''a'', CHR 0x0A]\<rparr>), ListObj [3]])
   \<and> render_message_template_store placeholders 2 Map.empty
       (single (empty_dict\<lparr>text := Some [CHR ''a'', CHR 0x0A, CHR 0x0A]\<rparr>) @
        [ListObj [3], Dict (empty_dict\<lparr>text := Some [CHR ''a'', CHR 0x0A]\<rparr>), ListObj [3]])
     = (Inr 5,
        single (empty_dict\<lparr>text := Some [CHR ''a'', CHR 0x0A, CHR 0x0A]\<rparr>) @
        [ListObj [3], Dict (empty_dict\<lparr>text := Some [CHR ''a'', CHR 0x0A]\<rparr>), ListObj [3],
         ListObj [6], Dict (empty_dict\<lparr>text := Some [CHR ''a'']\<rparr>), ListObj [6]])
   \<and> template_at
       (single (empty_dict\<lparr>text := Some [CHR ''a'', CHR 0x0A, CHR 0x0A]\<rparr>) @
        [ListObj [3], Dict (empty_dict\<lparr>text := Some [CHR ''a'', CHR 0x0A]\<rparr>), ListObj [3]]) 2
     = Some [empty_block\<lparr>text := Some [CHR ''a'', CHR 0x0A]\<rparr>]
   \<and> template_at
       (single (empty_dict\<lparr>text := Some [CHR ''a'', CHR 0x0A, CHR 0x0A]\<rparr>) @
        [ListObj [3], Dict (empty_dict\<lparr>text := Some [CHR ''a'', CHR 0x0A]\<rparr>), ListObj [3],
         ListObj [6], Dict (empty_dict\<lparr>text := Some [CHR ''a'']\<rparr>), ListObj [6]]) 5
     = Some [empty_block\<lparr>text := Some [CHR ''a'']\<rparr>]"
  by (simp add: store_defs render_defs read_defs status_descriptions_def)

text \<open>
  C9, amended. For a template in which no object occurs twice, when the call returns a
  list of blocks none of which has a status mapping (an empty one counts as none) and
  whose strings, those of the buttons included, the engine renders to themselves with
  the empty context: the call on that list with the empty context returns a list with
  the same value.
\<close>

theorem render_idempotent_fixed:
  assumes "holds h t bs"
    and "render_message_template_store tpl t kw h = (Inr data, h')"
    and "template_at h' data = Some out"
    and "\<forall>x\<in>set out. fixed_block tpl Map.empty x \<and> no_status_mapping x"
  shows "\<exists>data2 h2. render_message_template_store tpl data Map.empty h' = (Inr data2, h2) \<and>
           template_at h2 data2 = Some out"
proof -
  from render_store_returns[OF assms(1,2)] obtain out' where
    v: "render_values tpl kw [] bs = Inr out'" and hd: "holds h' data out'"
    and t: "template_at h' data = Some out'" by blast
  from t assms(3) have o: "out' = out" by simp
  note l = render_values_all_Inr(1)[OF v]
  have "\<forall>x\<in>set out. render_block tpl Map.empty x = Inr (Some x)"
  proof
    fix x assume x: "x \<in> set out"
    with o obtain i where i: "i < length out'" "out' ! i = x"
      unfolding in_set_conv_nth by blast
    with l have "render_block tpl kw (filter (\<lambda>d. \<not> skipped tpl kw d) bs ! i) = Inr (Some x)"
      by (auto simp: list_all2_conv_all_nth)
    moreover from assms(4) x have "fixed_block tpl Map.empty x" "no_status_mapping x"
      by blast+
    ultimately show "render_block tpl Map.empty x = Inr (Some x)"
      by (rule render_block_fixed)
  qed
  with hd o show ?thesis by (simp add: render_store_again)
qed

theorem render_idempotent_fixed_witness:
  "holds example_store 0
     [empty_block\<lparr>title := Some ''Hi {{name}}'', buttons := Some [join_button]\<rparr>]
   \<and> render_message_template_store placeholders 0 [''name'' \<mapsto> PyStr ''Ann''] example_store
      = (Inr 4,
         example_store @
         [ListObj [7],
          ButtonObj (join_button\<lparr>button_value := Some ''Ann''\<rparr>),
          ListObj [5],
          Dict (empty_dict\<lparr>title := Some ''Hi Ann'', buttons := Some 6\<rparr>),
          ListObj [7]])
   \<and> (\<exists>data2 h2.
         render_message_template_store placeholders 4 Map.empty
           (example_store @
            [ListObj [7],
             ButtonObj (join_button\<lparr>button_value := Some ''Ann''\<rparr>),
             ListObj [5],
             Dict (empty_dict\<lparr>title := Some ''Hi Ann'', buttons := Some 6\<rparr>),
             ListObj [7]])
           = (Inr data2, h2) \<and>
         template_at h2 data2
           = Some [empty_block\<lparr>title := Some ''Hi Ann'',
                     buttons := Some [join_button\<lparr>button_value := Some ''Ann''\<rparr>]\<rparr>])"
proof -
  have a: "holds example_store 0
     [empty_block\<lparr>title := Some ''Hi {{name}}'', buttons := Some [join_button]\<rparr>]"
    by (simp add: read_defs example_store_def empty_dict_def empty_block_def)
  have b: "render_message_template_store placeholders 0 [''name'' \<mapsto> PyStr ''Ann''] example_store
      = (Inr 4,
         example_store @
         [ListObj [7],
          ButtonObj (join_button\<lparr>button_value := Some ''Ann''\<rparr>),
          ListObj [5],
          Dict (empty_dict\<lparr>title := Some ''Hi Ann'', buttons := Some 6\<rparr>),
          ListObj [7]])"
    by (simp add: store_defs render_defs)
  have c: "template_at
         (example_store @
         [ListObj [7],
          ButtonObj (join_button\<lparr>button_value := Some ''Ann''\<rparr>),
          ListObj [5],
          Dict (empty_dict\<lparr>title := Some ''Hi Ann'', buttons := Some 6\<rparr>),
          ListObj [7]]) 4
      = Some [empty_block\<lparr>title := Some ''Hi Ann'',
                     buttons := Some [join_button\<lparr>button_value := Some ''Ann''\<rparr>]\<rparr>]"
    by (simp add: read_defs example_store_def empty_dict_def empty_block_def)
  have d: "\<forall>x\<in>set [empty_block\<lparr>title := Some ''Hi Ann'',
                     buttons := Some [join_button\<lparr>button_value := Some ''Ann''\<rparr>]\<rparr>].
             fixed_block placeholders Map.empty x \<and> no_status_mapping x"
    by (simp add: fixed_block_def fixed_button_def fixed_def no_status_mapping_def
        render_defs join_button_def)
  from render_idempotent_fixed[OF a b c d] a b show ?thesis by simp
qed

section \<open>The participant service: queries and frames\<close>



lemma first_None_iff: "first xs = None \<longleftrightarrow> xs = []"
  by (cases xs) simp_all

lemma first_Some_mem: "first xs = Some i \<Longrightarrow> i \<in> set xs"
  by (cases xs) simp_all

lemma set_rows_where:
  "set (rows_where P s) = {i. i < length (participants s) \<and> P (participants s ! i)}"
  by (auto simp: rows_where_def)

lemma rows_where_Nil_iff:
  "rows_where P s = [] \<longleftrightarrow> (\<forall>p\<in>set (participants s). \<not> P p)"
  unfolding rows_where_def filter_empty_conv
  by (auto simp: in_set_conv_nth) (metis nth_mem)

lemma rows_where_update:
  assumes "i < length (participants s)" "P p' = P (participants s ! i)"
  shows "rows_where P (s\<lparr>participants := (participants s)[i := p']\<rparr>) = rows_where P s"
  unfolding rows_where_def using assms
  by (auto intro!: filter_cong simp: nth_list_update)

lemma rows_where_singleton:
  "rows_where P s = [i] \<Longrightarrow> i < length (participants s) \<and> P (participants s ! i)"
  using set_rows_where[of P s] by auto

lemma take_drop_filter:
  "distinct (map f xs) \<Longrightarrow> i < length xs \<Longrightarrow> f (xs ! i) = k \<Longrightarrow>
     take i xs @ drop (Suc i) xs = filter (\<lambda>x. f x \<noteq> k) xs"
proof (induction xs arbitrary: i)
  case Nil
  then show ?case by simp
next
  case (Cons x xs)
  show ?case
  proof (cases i)
    case 0
    with Cons.prems have "f x = k" "\<forall>y\<in>set xs. f y \<noteq> k" by (auto simp: image_iff)
    with 0 show ?thesis by (simp add: filter_id_conv)
  next
    case (Suc j)
    with Cons.prems have j: "j < length xs" "f (xs ! j) = k" "distinct (map f xs)" by auto
    with Cons.prems have "f x \<noteq> k" by (metis distinct.simps(2) list.simps(9) nth_mem image_eqI set_map)
    with Cons.IH[OF j(3) j(1) j(2)] Suc show ?thesis by simp
  qed
qed

lemma get_missing:
  "\<forall>p\<in>set (participants s). participant_id p \<noteq> pid \<Longrightarrow> get s pid = None"
  by (simp add: get_def row_def rows_where_Nil_iff[THEN iffD2])

lemma delete_missing:
  "\<forall>p\<in>set (participants s). participant_id p \<noteq> pid \<Longrightarrow> delete s pid = Inl UnmappedInstanceError"
  by (simp add: delete_def rows_where_Nil_iff[THEN iffD2])

lemma delete_existing:
  assumes "wf s" "\<exists>p\<in>set (participants s). participant_id p = pid"
  shows "delete s pid =
     Inr (s\<lparr>participants := filter (\<lambda>p. participant_id p \<noteq> pid) (participants s)\<rparr>)"
proof -
  from assms(2) have "rows_where (\<lambda>p. participant_id p = pid) s \<noteq> []"
    by (auto simp: rows_where_Nil_iff)
  then obtain i where f: "first (rows_where (\<lambda>p. participant_id p = pid) s) = Some i"
    by (cases "rows_where (\<lambda>p. participant_id p = pid) s") auto
  from first_Some_mem[OF this] have i: "i < length (participants s)"
    "participant_id (participants s ! i) = pid" by (auto simp: set_rows_where)
  from assms(1) have "distinct (map participant_id (participants s))" by (simp add: wf_def)
  from take_drop_filter[OF this i] f show ?thesis by (simp add: delete_def)
qed

lemma query_missing:
  "\<forall>p\<in>set (participants s). \<not> P p \<Longrightarrow>
     ebind (one_or_none (rows_where P s)) (\<lambda>i. Inr (row s i)) = Inr None"
  by (simp add: rows_where_Nil_iff[THEN iffD2] ebind_def row_def)


lemma get_or_create_not_found:
  "rows_where (\<lambda>p. incident_id p = Some iid \<and> individual_contact_id p = Some cid) s = [] \<Longrightarrow>
     get_or_create s iid cid sid roles = create_new s iid cid sid roles"
  by (simp add: get_or_create_def ebind_def)

lemma get_or_create_found:
  assumes "rows_where (\<lambda>p. incident_id p = Some iid \<and> individual_contact_id p = Some cid) s = [i]"
  shows "get_or_create s iid cid sid roles =
     Inr (add_roles_and_service s sid roles (participants s ! i),
          s\<lparr>participants := (participants s)[i := add_roles_and_service s sid roles (participants s ! i)]\<rparr>)"
  using assms by (simp add: get_or_create_def ebind_def Let_def)

lemma add_roles_and_service_frame:
  "participant_id (add_roles_and_service s sid roles p) = participant_id p"
  "incident_id (add_roles_and_service s sid roles p) = incident_id p"
  "individual_contact_id (add_roles_and_service s sid roles p) = individual_contact_id p"
  "participant_roles (add_roles_and_service s sid roles p) =
     participant_roles p @ map participant_role_service_create roles"
  by (auto simp: add_roles_and_service_def Let_def split: option.splits)



lemma services_update [simp]:
  "service_service_get (s\<lparr>participants := ps\<rparr>) sid = service_service_get s sid"
  by (cases sid) (simp_all add: service_service_get_def)







lemma setattrs_frame:
  "participant_id (setattrs u p) = participant_id p"
  "service (setattrs u p) = service p"
  "service_id (setattrs u p) = service_id p"
  by (auto simp: setattrs_def Let_def split: option.splits)





lemmas service_defs =
  get_or_create_def create_new_def create_def individual_info_def get_or_unknown_def
  truthy_id_def add_roles_and_service_def service_service_get_def rows_where_def
  update_def setattrs_def delete_def get_def row_def
  empty_db_def linked_db_def served_db_def plugin_db_def silent_plugin_db_def
  new_participant_def ebind_def Let_def

lemma upt_1 [simp]: "[0..<1] = [0]" by (simp add: upt_rec)


lemma wf_served_db: "wf served_db"
  by (simp add: wf_def service_defs)


lemma get_all_by_incident_id_missing:
  "\<forall>p\<in>set (participants s). incident_id p \<noteq> Some iid \<Longrightarrow> get_all_by_incident_id s iid = []"
  by (simp add: get_all_by_incident_id_def filter_empty_conv)

subsection \<open>The primary key is an invariant\<close>

text \<open>
  Every operation of the service takes a session with distinct identifiers to one with
  distinct identifiers.
\<close>

lemma wf_update_row:
  assumes "wf s" "i < length (participants s)"
    "participant_id p' = participant_id (participants s ! i)"
  shows "wf (s\<lparr>participants := (participants s)[i := p']\<rparr>)"
proof -
  have m: "map participant_id ((participants s)[i := p']) = map participant_id (participants s)"
    using assms(2,3) by (simp add: map_update list_update_same_conv)
  have "\<forall>p\<in>set ((participants s)[i := p']). participant_id p < next_id s"
  proof
    fix p assume "p \<in> set ((participants s)[i := p'])"
    then have "p \<in> insert p' (set (participants s))"
      using set_update_subset_insert[of "participants s" i p'] by auto
    with assms show "participant_id p < next_id s" by (auto simp: wf_def)
  qed
  with assms(1) m show ?thesis by (simp add: wf_def)
qed



lemma wf_update:
  assumes "wf s" "i < length (participants s)" "update s i u = (p, s')"
  shows "wf s'"
proof -
  from assms(3) obtain p' where "s' = s\<lparr>participants := (participants s)[i := p']\<rparr>"
    "participant_id p' = participant_id (participants s ! i)"
    by (auto simp: update_def Let_def setattrs_frame split: option.splits)
  with wf_update_row[OF assms(1,2), of p'] show ?thesis by simp
qed

lemma wf_delete:
  assumes "wf s" "delete s pid = Inr s'"
  shows "wf s'"
proof -
  from assms(2) obtain i where
    s': "s' = s\<lparr>participants := take i (participants s) @ drop (Suc i) (participants s)\<rparr>"
    by (auto simp: delete_def split: option.splits)
  let ?ids = "map participant_id (participants s)"
  from assms(1) have d: "distinct ?ids" by (simp add: wf_def)
  have "map participant_id (take i (participants s) @ drop (Suc i) (participants s))
        = take i ?ids @ drop (Suc i) ?ids" by (simp add: take_map drop_map)
  moreover from d have "distinct (take i ?ids @ drop (Suc i) ?ids)"
    using set_take_disj_set_drop_if_distinct[of ?ids i "Suc i"] by simp
  moreover have "set (take i (participants s) @ drop (Suc i) (participants s))
        \<subseteq> set (participants s)"
    by (auto dest: in_set_takeD in_set_dropD)
  ultimately show ?thesis using assms(1) s' by (auto simp: wf_def)
qed

section \<open>The participant service: the claims\<close>



text \<open>
  C2, as stated, fails when the pair has no participant yet: \<open>create\<close> builds the new
  participant from a specification that names neither the incident nor the individual, so
  the second call does not find the participant of the first and makes another one.
\<close>

theorem get_or_create_twice_creates_two:
  "get_or_create empty_db 7 3 None [ParticipantRoleCreate ''Liaison'']
     = Inr (new_participant 1 [''Liaison''],
            empty_db\<lparr>participants := [new_participant 1 [''Liaison'']], next_id := 2\<rparr>)
   \<and> get_or_create (empty_db\<lparr>participants := [new_participant 1 [''Liaison'']], next_id := 2\<rparr>)
        7 3 None [ParticipantRoleCreate ''Scribe'']
     = Inr (new_participant 2 [''Scribe''],
            empty_db\<lparr>participants := [new_participant 1 [''Liaison''], new_participant 2 [''Scribe'']],
                      next_id := 3\<rparr>)
   \<and> participant_id (new_participant 1 [''Liaison'']) \<noteq> participant_id (new_participant 2 [''Scribe''])"
  by (simp add: service_defs)

text \<open>
  C2, amended. When exactly one participant exists for the incident and the individual,
  two calls in a row both return it, and after the second call its roles are the roles it
  had, then the roles of the first call, then the roles of the second, duplicates
  included.
\<close>

theorem get_or_create_twice_existing:
  assumes "rows_where (\<lambda>p. incident_id p = Some iid \<and> individual_contact_id p = Some cid) s = [i]"
  shows "\<exists>p1 s1 p2 s2.
           get_or_create s iid cid sid1 roles1 = Inr (p1, s1) \<and>
           get_or_create s1 iid cid sid2 roles2 = Inr (p2, s2) \<and>
           participant_id p1 = participant_id (participants s ! i) \<and>
           participant_id p2 = participant_id p1 \<and>
           participants s1 ! i = p1 \<and> participants s2 ! i = p2 \<and>
           participant_roles p2 =
             participant_roles (participants s ! i)
               @ map participant_role_service_create roles1
               @ map participant_role_service_create roles2"
proof -
  let ?P = "\<lambda>p. incident_id p = Some iid \<and> individual_contact_id p = Some cid"
  let ?p1 = "add_roles_and_service s sid1 roles1 (participants s ! i)"
  let ?s1 = "s\<lparr>participants := (participants s)[i := ?p1]\<rparr>"
  let ?p2 = "add_roles_and_service ?s1 sid2 roles2 (participants ?s1 ! i)"
  let ?s2 = "?s1\<lparr>participants := (participants ?s1)[i := ?p2]\<rparr>"
  from rows_where_singleton[OF assms] have i: "i < length (participants s)"
    "?P (participants s ! i)" by simp_all
  have c1: "get_or_create s iid cid sid1 roles1 = Inr (?p1, ?s1)"
    by (rule get_or_create_found[OF assms])
  from i have "?P ?p1 = ?P (participants s ! i)" by (simp add: add_roles_and_service_frame)
  from rows_where_update[OF i(1), of ?P ?p1, OF this] assms
  have r1: "rows_where ?P ?s1 = [i]" by simp
  have c2: "get_or_create ?s1 iid cid sid2 roles2 = Inr (?p2, ?s2)"
    by (rule get_or_create_found[OF r1])
  from i have n: "participants ?s1 ! i = ?p1" by simp
  from i have "participants ?s2 ! i = ?p2" by simp
  with c1 c2 n show ?thesis
    by (simp add: add_roles_and_service_frame del: services_update)
qed

theorem get_or_create_twice_existing_witness:
  "rows_where (\<lambda>p. incident_id p = Some 7 \<and> individual_contact_id p = Some 3) linked_db = [0]
   \<and> (\<exists>p1 s1 p2 s2.
        get_or_create linked_db 7 3 None [ParticipantRoleCreate ''Liaison''] = Inr (p1, s1) \<and>
        get_or_create s1 7 3 None [ParticipantRoleCreate ''Liaison''] = Inr (p2, s2) \<and>
        participant_id p1 = 1 \<and> participant_id p2 = 1 \<and>
        map role (participant_roles p2) = [''Reporter'', ''Liaison'', ''Liaison''])"
proof -
  have r: "rows_where (\<lambda>p. incident_id p = Some 7 \<and> individual_contact_id p = Some 3) linked_db = [0]"
    by (simp add: service_defs)
  from get_or_create_twice_existing[OF r, of None "[ParticipantRoleCreate ''Liaison'']"
      None "[ParticipantRoleCreate ''Liaison'']"]
  obtain p1 s1 p2 s2 where
    "get_or_create linked_db 7 3 None [ParticipantRoleCreate ''Liaison''] = Inr (p1, s1)"
    "get_or_create s1 7 3 None [ParticipantRoleCreate ''Liaison''] = Inr (p2, s2)"
    "participant_id p1 = participant_id (participants linked_db ! 0)"
    "participant_id p2 = participant_id p1"
    "participant_roles p2 = participant_roles (participants linked_db ! 0)
       @ map participant_role_service_create [ParticipantRoleCreate ''Liaison'']
       @ map participant_role_service_create [ParticipantRoleCreate ''Liaison'']"
    by blast
  then show ?thesis using r
    by (auto simp: linked_db_def empty_db_def new_participant_def)
qed

text \<open>
  C7, as stated, fails when the lookup returns nothing: the plugin's \<open>None\<close> is read
  with \<open>.get\<close>, which raises, and no participant is made.
\<close>

theorem lookup_returns_none_raises:
  "rows_where (\<lambda>p. incident_id p = Some 7 \<and> individual_contact_id p = Some 3) silent_plugin_db = []
   \<and> get_or_create silent_plugin_db 7 3 None [ParticipantRoleCreate ''Liaison'']
       = Inl AttributeError"
  by (simp add: service_defs)

text \<open>
  C7, amended. For an incident that exists and has no participant for the individual:
  without a contact plugin for the incident's project the call makes a participant whose
  team, department and location are \<open>"Unknown"\<close>; with a plugin that returns a dict for
  the individual's email it makes one on which each of the three is the value of its key
  in the dict, and \<open>"Unknown"\<close> when the dict has no such key (all three for an empty
  dict); with a plugin that returns \<open>None\<close> the call raises. The new participant is the
  last row of the table.
\<close>

theorem new_participant_defaults:
  assumes "\<forall>q\<in>set (participants s).
             \<not> (incident_id q = Some iid \<and> individual_contact_id q = Some cid)"
    and "incidents s iid = Some inc"
  shows "(contact_plugins s (project_id inc) = None \<longrightarrow>
            (\<exists>p s'. get_or_create s iid cid sid roles = Inr (p, s') \<and>
               team p = PyStr ''Unknown'' \<and> department p = PyStr ''Unknown'' \<and>
               location p = PyStr ''Unknown'' \<and> participants s' = participants s @ [p]))
       \<and> (\<forall>plugin ic d. contact_plugins s (project_id inc) = Some plugin \<and>
            individual_contacts s cid = Some ic \<and> plugin (email ic) = Some d \<longrightarrow>
            (\<exists>p s'. get_or_create s iid cid sid roles = Inr (p, s') \<and>
               team p = (case d ''team'' of None \<Rightarrow> PyStr ''Unknown'' | Some v \<Rightarrow> v) \<and>
               department p = (case d ''department'' of None \<Rightarrow> PyStr ''Unknown'' | Some v \<Rightarrow> v) \<and>
               location p = (case d ''location'' of None \<Rightarrow> PyStr ''Unknown'' | Some v \<Rightarrow> v) \<and>
               participants s' = participants s @ [p]))
       \<and> (\<forall>plugin ic. contact_plugins s (project_id inc) = Some plugin \<and>
            individual_contacts s cid = Some ic \<and> plugin (email ic) = None \<longrightarrow>
            get_or_create s iid cid sid roles = Inl AttributeError)"
proof -
  from assms(1) have "rows_where (\<lambda>p. incident_id p = Some iid \<and> individual_contact_id p = Some cid) s = []"
    by (simp add: rows_where_Nil_iff)
  then have g: "get_or_create s iid cid sid roles = create_new s iid cid sid roles"
    by (rule get_or_create_not_found)
  have 1: "contact_plugins s (project_id inc) = None \<longrightarrow>
            (\<exists>p s'. get_or_create s iid cid sid roles = Inr (p, s') \<and>
               team p = PyStr ''Unknown'' \<and> department p = PyStr ''Unknown'' \<and>
               location p = PyStr ''Unknown'' \<and> participants s' = participants s @ [p])"
    using assms(2)
    by (simp add: g create_new_def individual_info_def get_or_unknown_def ebind_def
        create_def Let_def)
  have 2: "\<forall>plugin ic d. contact_plugins s (project_id inc) = Some plugin \<and>
            individual_contacts s cid = Some ic \<and> plugin (email ic) = Some d \<longrightarrow>
            (\<exists>p s'. get_or_create s iid cid sid roles = Inr (p, s') \<and>
               team p = (case d ''team'' of None \<Rightarrow> PyStr ''Unknown'' | Some v \<Rightarrow> v) \<and>
               department p = (case d ''department'' of None \<Rightarrow> PyStr ''Unknown'' | Some v \<Rightarrow> v) \<and>
               location p = (case d ''location'' of None \<Rightarrow> PyStr ''Unknown'' | Some v \<Rightarrow> v) \<and>
               participants s' = participants s @ [p])"
    using assms(2)
    by (simp add: g create_new_def individual_info_def get_or_unknown_def ebind_def
        create_def Let_def)
  have 3: "\<forall>plugin ic. contact_plugins s (project_id inc) = Some plugin \<and>
            individual_contacts s cid = Some ic \<and> plugin (email ic) = None \<longrightarrow>
            get_or_create s iid cid sid roles = Inl AttributeError"
    using assms(2)
    by (simp add: g create_new_def individual_info_def get_or_unknown_def ebind_def)
  from 1 2 3 show ?thesis by (intro conjI)
qed

theorem new_participant_defaults_witness:
  "participants plugin_db = []
   \<and> incidents plugin_db 7 = Some \<lparr>project_id = 1\<rparr>
   \<and> (\<exists>p s'. get_or_create plugin_db 7 3 None [ParticipantRoleCreate ''Liaison''] = Inr (p, s') \<and>
        team p = PyStr ''SRE'' \<and> department p = PyStr ''Unknown'' \<and>
        location p = PyStr ''Unknown'' \<and> participants s' = [p])"
proof -
  have a: "\<forall>q\<in>set (participants plugin_db).
       \<not> (incident_id q = Some 7 \<and> individual_contact_id q = Some 3)"
    by (simp add: plugin_db_def empty_db_def)
  have b: "incidents plugin_db 7 = Some \<lparr>project_id = 1\<rparr>"
    by (simp add: plugin_db_def empty_db_def)
  have c: "contact_plugins plugin_db (project_id \<lparr>project_id = 1\<rparr>)
        = Some (\<lambda>e. if e = ''ann@example.com'' then Some [''team'' \<mapsto> PyStr ''SRE'']
                            else Some Map.empty)"
    "individual_contacts plugin_db 3 = Some \<lparr>email = ''ann@example.com''\<rparr>"
    by (simp_all add: plugin_db_def empty_db_def)
  from new_participant_defaults[OF a b, of None "[ParticipantRoleCreate ''Liaison'']"] c
  have "\<exists>p s'. get_or_create plugin_db 7 3 None [ParticipantRoleCreate ''Liaison''] = Inr (p, s') \<and>
        team p = (case [''team'' \<mapsto> PyStr ''SRE''] ''team'' of
                    None \<Rightarrow> PyStr ''Unknown'' | Some v \<Rightarrow> v) \<and>
        department p = (case [''team'' \<mapsto> PyStr ''SRE''] ''department'' of
                    None \<Rightarrow> PyStr ''Unknown'' | Some v \<Rightarrow> v) \<and>
        location p = (case [''team'' \<mapsto> PyStr ''SRE''] ''location'' of
                    None \<Rightarrow> PyStr ''Unknown'' | Some v \<Rightarrow> v) \<and>
        participants s' = participants plugin_db @ [p]"
    by simp
  then have "\<exists>p s'. get_or_create plugin_db 7 3 None [ParticipantRoleCreate ''Liaison''] = Inr (p, s') \<and>
        team p = PyStr ''SRE'' \<and> department p = PyStr ''Unknown'' \<and>
        location p = PyStr ''Unknown'' \<and> participants s' = [p]"
    by (simp add: plugin_db_def empty_db_def)
  moreover have "participants plugin_db = []" by (simp add: plugin_db_def empty_db_def)
  ultimately show ?thesis using b by blast
qed

text \<open>
  C8. Without a participant of the identifier, \<open>delete\<close> raises (the session's
  \<open>delete(None)\<close>: the spec's NotFound) and \<open>get\<close> returns \<open>None\<close>; with one, in a
  session with distinct identifiers, \<open>delete\<close> returns the session without it. Every
  other lookup returns \<open>None\<close>, or the empty list, when no row passes its filters.
\<close>

theorem delete_fails_get_returns_none:
  "((\<forall>p\<in>set (participants s). participant_id p \<noteq> pid) \<longrightarrow>
       delete s pid = Inl UnmappedInstanceError \<and> get s pid = None)
   \<and> (wf s \<and> (\<exists>p\<in>set (participants s). participant_id p = pid) \<longrightarrow>
       (\<exists>s'. delete s pid = Inr s' \<and>
          participants s' = filter (\<lambda>p. participant_id p \<noteq> pid) (participants s) \<and>
          (\<forall>p\<in>set (participants s'). participant_id p \<noteq> pid)))
   \<and> ((\<forall>p\<in>set (participants s). \<not> (incident_id p = Some iid \<and> has_active_role r p)) \<longrightarrow>
       get_by_incident_id_and_role s iid r = Inr None)
   \<and> ((\<forall>p\<in>set (participants s). \<not> (incident_id p = Some iid \<and> has_email s e p)) \<longrightarrow>
       get_by_incident_id_and_email s iid e = Inr None)
   \<and> ((\<forall>p\<in>set (participants s). \<not> (incident_id p = Some iid \<and> service_id p = Some sid)) \<longrightarrow>
       get_by_incident_id_and_service_id s iid sid = Inr None)
   \<and> ((\<forall>p\<in>set (participants s). \<not> (incident_id p = Some iid \<and> user_conversation_id p = Some c)) \<longrightarrow>
       get_by_incident_id_and_conversation_id s iid c = Inr None)
   \<and> ((\<forall>p\<in>set (participants s). incident_id p \<noteq> Some iid) \<longrightarrow>
       get_all_by_incident_id s iid = [])"
proof (intro conjI impI)
  assume "wf s \<and> (\<exists>p\<in>set (participants s). participant_id p = pid)"
  then show "\<exists>s'. delete s pid = Inr s' \<and>
          participants s' = filter (\<lambda>p. participant_id p \<noteq> pid) (participants s) \<and>
          (\<forall>p\<in>set (participants s'). participant_id p \<noteq> pid)"
    by (simp add: delete_existing)
qed (simp_all add: delete_missing get_missing query_missing get_all_by_incident_id_missing
      get_by_incident_id_and_role_def get_by_incident_id_and_email_def
      get_by_incident_id_and_service_id_def get_by_incident_id_and_conversation_id_def)


theorem delete_fails_get_returns_none_witness:
  "wf served_db
   \<and> delete served_db 5 = Inl UnmappedInstanceError \<and> get served_db 5 = None
   \<and> delete served_db 1 = Inr (served_db\<lparr>participants := []\<rparr>)
   \<and> get_by_incident_id_and_role served_db 7 ''Scribe'' = Inr None
   \<and> get_by_incident_id_and_email served_db 7 ''bob@example.com'' = Inr None
   \<and> get_by_incident_id_and_service_id served_db 7 2 = Inr None
   \<and> get_by_incident_id_and_conversation_id served_db 7 ''C024'' = Inr None
   \<and> get_all_by_incident_id served_db 8 = []"
  using wf_served_db
    delete_fails_get_returns_none[of served_db 5 7 "''Scribe''" "''bob@example.com''" 2 "''C024''"]
    delete_fails_get_returns_none[of served_db 1 8 "''Scribe''" "''bob@example.com''" 2 "''C024''"]
  by (simp add: service_defs get_all_by_incident_id_def
      get_by_incident_id_and_role_def get_by_incident_id_and_email_def
      get_by_incident_id_and_service_id_def get_by_incident_id_and_conversation_id_def
      has_active_role_def has_email_def)

end
